theory Spec2Isabelle
  imports Complex_Main "HOL-Library.Word" "HOL-Library.Multiset"
begin

section \<open>Transcript ingestion and live index of fooxytv/verbose\<close>

text \<open>
  The development embeds the Go package \<open>session\<close>: the transcript parser
  \<open>ParseSessionFile\<close> with its helpers and the \<open>Store\<close> that indexes parsed
  sessions. Go strings are byte strings and are modelled as \<open>string\<close>; Go's \<open>int\<close> is
  the 64-bit machine integer and is modelled as \<open>64 word\<close>, so that \<open>+=\<close> wraps as it
  does in the program. Record fields carry a short prefix naming their struct
  (\<open>e_\<close> for rawEntry, \<open>m_\<close> for rawMessage, \<open>u_\<close> for rawUsage, \<open>cm_\<close> for
  rawCompactMetadata, \<open>ev_\<close> for Event, \<open>i_\<close> for SessionInfo, \<open>s_\<close> for Session),
  because several structs of the source share field names.
\<close>

subsection \<open>Values of the standard library\<close>

text \<open>
  A \<open>time.Time\<close> is an instant; it is modelled as the number of nanoseconds since the
  zero Time (January 1, year 1, 00:00 UTC). \<open>IsZero\<close>, \<open>After\<close> and \<open>Before\<close> compare
  instants.
\<close>

type_synonym time = int

definition IsZero :: "time \<Rightarrow> bool" where
  "IsZero t = (t = 0)"

definition After :: "time \<Rightarrow> time \<Rightarrow> bool" where
  "After t u = (u < t)"

definition Before :: "time \<Rightarrow> time \<Rightarrow> bool" where
  "Before t u = (t < u)"

text \<open>
  A decoded \<open>interface{}\<close> holds what \<open>encoding/json\<close> puts there: nil, bool, float64,
  string, \<open>[]interface{}\<close> or \<open>map[string]interface{}\<close>. A finite float64 is a real
  number; a Go map is read only by key lookup here, so an association list with
  \<open>map_of\<close> stands for it (a nil map and an empty map both look up nothing).
\<close>

datatype json =
    JNull
  | JBool bool
  | JNumber real
  | JString string
  | JArray "json list"
  | JObject "(string \<times> json) list"

text \<open>Indexing a Go map yields the zero value (nil) for a missing key. The type
  assertions \<open>v.(string)\<close>, \<open>v.(bool)\<close>, \<open>v.(map[string]interface{})\<close> are used
  in their two-result form; the one-result helpers give the zero value when the
  assertion fails.\<close>

definition lookup :: "(string \<times> json) list \<Rightarrow> string \<Rightarrow> json" where
  "lookup kvs k = (case map_of kvs k of None \<Rightarrow> JNull | Some v \<Rightarrow> v)"

fun as_string :: "json \<Rightarrow> string option" where
  "as_string (JString s) = Some s"
| "as_string _ = None"

definition string_or_zero :: "json \<Rightarrow> string" where
  "string_or_zero v = (case as_string v of Some s \<Rightarrow> s | None \<Rightarrow> [])"

fun bool_or_zero :: "json \<Rightarrow> bool" where
  "bool_or_zero (JBool b) = b"
| "bool_or_zero _ = False"

fun map_or_zero :: "json \<Rightarrow> (string \<times> json) list" where
  "map_or_zero (JObject kvs) = kvs"
| "map_or_zero _ = []"

datatype layout = RFC3339Nano | RFC3339

text \<open>
  The functions of the standard library that the parser calls on its input and whose
  results it only passes on are parameters of the model: \<open>json.Unmarshal\<close> into a
  rawEntry (\<open>None\<close> when it returns an error), \<open>json.Marshal\<close>, \<open>time.Parse\<close>
  (\<open>None\<close> when it returns an error) and \<open>strings.TrimSpace\<close>.
\<close>

record rawUsage =
  u_InputTokens :: "64 word"
  u_OutputTokens :: "64 word"
  u_CacheCreationInputTokens :: "64 word"
  u_CacheReadInputTokens :: "64 word"

record rawMessage =
  m_Role :: string
  m_Content :: json
  m_Model :: string
  m_Usage :: "rawUsage option"
  m_ID :: string

record rawCompactMetadata =
  cm_Trigger :: string
  cm_PreTokens :: "64 word"

record rawEntry =
  e_Type :: string
  e_Subtype :: string
  e_UUID :: string
  e_ParentUUID :: "string option"
  e_SessionID :: string
  e_CWD :: string
  e_Timestamp :: string
  e_Version :: string
  e_GitBranch :: string
  e_Message :: "rawMessage option"
  e_Content :: string
  e_CompactMetadata :: "rawCompactMetadata option"
  e_IsCompactSummary :: bool

record lib =
  json_Unmarshal :: "string \<Rightarrow> rawEntry option"
  json_Marshal :: "json \<Rightarrow> string"
  time_Parse :: "layout \<Rightarrow> string \<Rightarrow> time option"
  strings_TrimSpace :: "string \<Rightarrow> string"

subsection \<open>The data model (types.go)\<close>

datatype EventType =
    EventUserPrompt
  | EventThinking
  | EventText
  | EventToolUse
  | EventToolResult
  | EventSystem
  | EventCompaction

record Event =
  ev_Type :: EventType
  ev_Timestamp :: time
  ev_UUID :: string
  ev_UserText :: string
  ev_Text :: string
  ev_Thinking :: string
  ev_ToolName :: string
  ev_ToolInput :: "(string \<times> json) list"
  ev_ToolID :: string
  ev_ToolOutput :: string
  ev_IsError :: bool
  ev_CompactPreTokens :: "64 word"
  ev_CompactTrigger :: string
  ev_InputTokens :: "64 word"
  ev_OutputTokens :: "64 word"

record SessionInfo =
  i_ID :: string
  i_ProjectDir :: string
  i_ProjectName :: string
  i_FilePath :: string
  i_StartTime :: time
  i_LastUpdate :: time
  i_InputTokens :: "64 word"
  i_OutputTokens :: "64 word"
  i_CacheReadTokens :: "64 word"
  i_CacheWriteTokens :: "64 word"
  i_CostUSD :: real
  i_EventCount :: "64 word"
  i_ToolCallCount :: "64 word"
  i_UserPrompts :: "64 word"
  i_FilesRead :: "string list"
  i_FilesWritten :: "string list"
  i_FilesCreated :: "string list"
  i_BashCommands :: "64 word"
  i_Errors :: "64 word"
  i_IsAgent :: bool
  i_Model :: string
  i_CWD :: string

record Session =
  s_Info :: SessionInfo
  s_Events :: "Event list"

text \<open>The zero values of the structs, as Go initialises them.\<close>

definition zero_Event :: Event where
  "zero_Event = \<lparr> ev_Type = EventUserPrompt, ev_Timestamp = 0, ev_UUID = [],
     ev_UserText = [], ev_Text = [], ev_Thinking = [], ev_ToolName = [],
     ev_ToolInput = [], ev_ToolID = [], ev_ToolOutput = [], ev_IsError = False,
     ev_CompactPreTokens = 0, ev_CompactTrigger = [], ev_InputTokens = 0,
     ev_OutputTokens = 0 \<rparr>"

definition zero_SessionInfo :: SessionInfo where
  "zero_SessionInfo = \<lparr> i_ID = [], i_ProjectDir = [], i_ProjectName = [],
     i_FilePath = [], i_StartTime = 0, i_LastUpdate = 0, i_InputTokens = 0,
     i_OutputTokens = 0, i_CacheReadTokens = 0, i_CacheWriteTokens = 0, i_CostUSD = 0,
     i_EventCount = 0, i_ToolCallCount = 0, i_UserPrompts = 0, i_FilesRead = [],
     i_FilesWritten = [], i_FilesCreated = [], i_BashCommands = 0, i_Errors = 0,
     i_IsAgent = False, i_Model = [], i_CWD = [] \<rparr>"

subsection \<open>Strings and paths (packages strings and path/filepath, Unix)\<close>

definition HasPrefix :: "string \<Rightarrow> string \<Rightarrow> bool" where
  "HasPrefix s pre = (length pre \<le> length s \<and> take (length pre) s = pre)"

definition HasSuffix :: "string \<Rightarrow> string \<Rightarrow> bool" where
  "HasSuffix s suf = (length suf \<le> length s \<and> drop (length s - length suf) s = suf)"

definition TrimSuffix :: "string \<Rightarrow> string \<Rightarrow> string" where
  "TrimSuffix s suf = (if HasSuffix s suf then take (length s - length suf) s else s)"

text \<open>\<open>strings.ReplaceAll\<close> for a non-empty pattern: the non-overlapping occurrences
  of \<open>old\<close>, found from the left, are replaced by \<open>new\<close>. (The parser calls it with the
  pattern "-" only; an empty pattern, which Go treats rune by rune, leaves the string
  as it is here.)\<close>

function ReplaceAll :: "string \<Rightarrow> string \<Rightarrow> string \<Rightarrow> string" where
  "ReplaceAll s old new =
     (if s = [] \<or> old = [] then s
      else if HasPrefix s old then new @ ReplaceAll (drop (length old) s) old new
      else hd s # ReplaceAll (tl s) old new)"
  by pat_completeness auto
termination
  by (relation "measure (\<lambda>(s, old, new). length s)") (auto simp: neq_Nil_conv)

declare ReplaceAll.simps [simp del]

definition sep :: char where
  "sep = CHR ''/''"

text \<open>\<open>split_on c s\<close> are the substrings of \<open>s\<close> between the occurrences of the byte
  \<open>c\<close>: what \<open>strings.Split\<close> returns for a one-byte separator.\<close>

fun split_on :: "char \<Rightarrow> string \<Rightarrow> string list" where
  "split_on c [] = [[]]"
| "split_on c (x # xs) =
     (if x = c then [] # split_on c xs
      else (case split_on c xs of [] \<Rightarrow> [[x]] | f # fs \<Rightarrow> (x # f) # fs))"

fun intercalate :: "string \<Rightarrow> string list \<Rightarrow> string" where
  "intercalate s [] = []"
| "intercalate s [x] = x"
| "intercalate s (x # y # ys) = x @ s @ intercalate s (y # ys)"

text \<open>
  \<open>filepath.Clean\<close>, from its documentation: runs of separators count as one, \<open>.\<close>
  elements disappear, an inner \<open>..\<close> element removes the element before it, a \<open>..\<close>
  at the root disappears, and the empty result is \<open>.\<close>. \<open>clean_elems\<close> walks the
  elements from the left; its accumulator is the output so far, in reverse, and the
  number of leading \<open>..\<close> elements it holds.
\<close>

fun clean_elems :: "bool \<Rightarrow> string list \<Rightarrow> string list \<Rightarrow> nat \<Rightarrow> string list" where
  "clean_elems rooted [] out dotdot = rev out"
| "clean_elems rooted (x # xs) out dotdot =
     (if x = [] \<or> x = ''.'' then clean_elems rooted xs out dotdot
      else if x = ''..'' then
        (if dotdot < length out then clean_elems rooted xs (tl out) dotdot
         else if \<not> rooted then clean_elems rooted xs (x # out) (Suc dotdot)
         else clean_elems rooted xs out dotdot)
      else clean_elems rooted xs (x # out) dotdot)"

definition Clean :: "string \<Rightarrow> string" where
  "Clean path =
     (if path = [] then ''.''
      else let rooted = (hd path = sep);
               body = intercalate [sep] (clean_elems rooted (split_on sep path) [] 0);
               out = (if rooted then sep # body else body)
           in if out = [] then ''.'' else out)"

definition Base :: "string \<Rightarrow> string" where
  "Base path =
     (if path = [] then ''.''
      else let stripped = rev (dropWhile (\<lambda>c. c = sep) (rev path));
               element = rev (takeWhile (\<lambda>c. c \<noteq> sep) (rev stripped))
           in if element = [] then [sep] else element)"

definition Dir :: "string \<Rightarrow> string" where
  "Dir path = Clean (rev (dropWhile (\<lambda>c. c \<noteq> sep) (rev path)))"

text \<open>\<open>filepath.Join\<close> of two elements.\<close>

definition Join :: "string \<Rightarrow> string \<Rightarrow> string" where
  "Join a b =
     (if a \<noteq> [] then Clean (a @ [sep] @ b)
      else if b \<noteq> [] then Clean b
      else [])"

subsection \<open>Reading lines (bufio.Scanner with ScanLines)\<close>

definition LF :: char where
  "LF = CHR 0x0A"

definition CR :: char where
  "CR = CHR 0x0D"

text \<open>\<open>raw_lines\<close> cuts the content at each line feed; a final line needs no line feed,
  and a line feed at the end of the content starts no further line.\<close>

fun raw_lines :: "string \<Rightarrow> string list" where
  "raw_lines [] = []"
| "raw_lines (c # cs) =
     (if c = LF then [] # raw_lines cs
      else (case raw_lines cs of [] \<Rightarrow> [[c]] | l # ls \<Rightarrow> (c # l) # ls))"

definition dropCR :: "string \<Rightarrow> string" where
  "dropCR l = (if l \<noteq> [] \<and> last l = CR then butlast l else l)"

text \<open>
  The scanner holds one line and its line feed in a buffer that grows up to
  \<open>limit\<close> bytes. A line of \<open>limit\<close> bytes or more makes \<open>Scan\<close> return false
  (\<open>ErrTooLong\<close>), which ends the \<open>for scanner.Scan()\<close> loop; the parser does not
  look at \<open>scanner.Err()\<close>. So the loop sees the lines before the first over-long one.
\<close>

definition scanner_lines :: "nat \<Rightarrow> string \<Rightarrow> string list" where
  "scanner_lines limit content =
     map dropCR (takeWhile (\<lambda>l. length l < limit) (raw_lines content))"

definition maxLine :: nat where
  "maxLine = 10 * 1024 * 1024"

subsection \<open>The parser (parser.go)\<close>

definition parseTimestamp :: "lib \<Rightarrow> string \<Rightarrow> time" where
  "parseTimestamp lib s =
     (case time_Parse lib RFC3339Nano s of
        Some t \<Rightarrow> t
      | None \<Rightarrow> (case time_Parse lib RFC3339 s of Some t \<Rightarrow> t | None \<Rightarrow> 0))"

text \<open>The text of one item of a multi-part \<open>tool_result\<close> content.\<close>

definition item_text :: "json \<Rightarrow> string" where
  "item_text item =
     (case item of
        JObject itemMap \<Rightarrow> (case as_string (lookup itemMap ''text'') of
                             Some text \<Rightarrow> text
                           | None \<Rightarrow> [])
      | _ \<Rightarrow> [])"

definition tool_result_output :: "lib \<Rightarrow> json \<Rightarrow> string" where
  "tool_result_output lib c =
     (case c of
        JString str \<Rightarrow> str
      | JArray items \<Rightarrow> concat (map item_text items)
      | _ \<Rightarrow> json_Marshal lib c)"

text \<open>The events one content block of a user record appends (the body of the loop over
  \<open>content\<close> in \<open>parseUserMessage\<close>).\<close>

definition user_block :: "lib \<Rightarrow> rawEntry \<Rightarrow> time \<Rightarrow> json \<Rightarrow> Event list" where
  "user_block lib entry ts block =
     (case block of
        JObject bMap \<Rightarrow>
          (let blockType = string_or_zero (lookup bMap ''type'') in
           if blockType = ''tool_result'' then
             [zero_Event\<lparr> ev_Type := EventToolResult, ev_Timestamp := ts,
                ev_UUID := e_UUID entry,
                ev_ToolID := string_or_zero (lookup bMap ''tool_use_id''),
                ev_ToolOutput := tool_result_output lib (lookup bMap ''content''),
                ev_IsError := bool_or_zero (lookup bMap ''is_error'') \<rparr>]
           else if blockType = ''text'' then
             (let text = string_or_zero (lookup bMap ''text'') in
              if strings_TrimSpace lib text \<noteq> [] then
                [zero_Event\<lparr> ev_Type := EventUserPrompt, ev_Timestamp := ts,
                   ev_UUID := e_UUID entry, ev_UserText := text \<rparr>]
              else [])
           else [])
      | _ \<Rightarrow> [])"

definition parseUserMessage :: "lib \<Rightarrow> rawEntry \<Rightarrow> time \<Rightarrow> Event list" where
  "parseUserMessage lib entry ts =
     (case e_Message entry of
        None \<Rightarrow> []
      | Some msg \<Rightarrow>
          (case m_Content msg of
             JString content \<Rightarrow>
               (if strings_TrimSpace lib content \<noteq> [] then
                  [zero_Event\<lparr> ev_Type := EventUserPrompt, ev_Timestamp := ts,
                     ev_UUID := e_UUID entry, ev_UserText := content \<rparr>]
                else [])
           | JArray content \<Rightarrow> concat (map (user_block lib entry ts) content)
           | _ \<Rightarrow> []))"

text \<open>The events one content block of an assistant record appends (the body of the loop
  over \<open>contentArr\<close> in \<open>parseAssistantMessage\<close>).\<close>

definition assistant_block ::
  "lib \<Rightarrow> rawEntry \<Rightarrow> time \<Rightarrow> 64 word \<Rightarrow> 64 word \<Rightarrow> json \<Rightarrow> Event list" where
  "assistant_block lib entry ts inputTokens outputTokens block =
     (case block of
        JObject bMap \<Rightarrow>
          (let blockType = string_or_zero (lookup bMap ''type'') in
           if blockType = ''thinking'' then
             (let thinking = string_or_zero (lookup bMap ''thinking'') in
              if strings_TrimSpace lib thinking \<noteq> [] then
                [zero_Event\<lparr> ev_Type := EventThinking, ev_Timestamp := ts,
                   ev_UUID := e_UUID entry, ev_Thinking := thinking,
                   ev_InputTokens := inputTokens, ev_OutputTokens := outputTokens \<rparr>]
              else [])
           else if blockType = ''text'' then
             (let text = string_or_zero (lookup bMap ''text'') in
              if strings_TrimSpace lib text \<noteq> [] then
                [zero_Event\<lparr> ev_Type := EventText, ev_Timestamp := ts,
                   ev_UUID := e_UUID entry, ev_Text := text,
                   ev_InputTokens := inputTokens, ev_OutputTokens := outputTokens \<rparr>]
              else [])
           else if blockType = ''tool_use'' then
             [zero_Event\<lparr> ev_Type := EventToolUse, ev_Timestamp := ts,
                ev_UUID := e_UUID entry,
                ev_ToolName := string_or_zero (lookup bMap ''name''),
                ev_ToolInput := map_or_zero (lookup bMap ''input''),
                ev_ToolID := string_or_zero (lookup bMap ''id''),
                ev_InputTokens := inputTokens, ev_OutputTokens := outputTokens \<rparr>]
           else [])
      | _ \<Rightarrow> [])"

definition parseAssistantMessage :: "lib \<Rightarrow> rawEntry \<Rightarrow> time \<Rightarrow> Event list" where
  "parseAssistantMessage lib entry ts =
     (case e_Message entry of
        None \<Rightarrow> []
      | Some msg \<Rightarrow>
          (case m_Content msg of
             JArray contentArr \<Rightarrow>
               (let inputTokens = (case m_Usage msg of None \<Rightarrow> 0 | Some u \<Rightarrow> u_InputTokens u);
                    outputTokens = (case m_Usage msg of None \<Rightarrow> 0 | Some u \<Rightarrow> u_OutputTokens u)
                in concat (map (assistant_block lib entry ts inputTokens outputTokens) contentArr))
           | _ \<Rightarrow> []))"

text \<open>\<open>estimateCost\<close> multiplies the four counters by the per-token prices. The program
  computes in float64; the model computes the same expression over the reals, reading
  each counter as the signed integer it is.\<close>

definition estimateCost :: "SessionInfo \<Rightarrow> real" where
  "estimateCost info =
     real_of_int (sint (i_InputTokens info)) * (15 / 1000000)
     + real_of_int (sint (i_OutputTokens info)) * (75 / 1000000)
     + real_of_int (sint (i_CacheReadTokens info)) * (1.5 / 1000000)
     + real_of_int (sint (i_CacheWriteTokens info)) * (18.75 / 1000000)"

text \<open>
  The local variables of \<open>ParseSessionFile\<close>. \<open>sess_Info\<close> and \<open>sess_Events\<close> are the
  two fields of \<open>sess\<close>. The maps \<open>filesRead\<close>, \<open>filesWritten\<close>, \<open>filesCreated\<close> and
  \<open>seenMessageIDs\<close> only ever store \<open>true\<close>, so each is the set of its keys.
\<close>

record assistantGroup =
  g_entry :: rawEntry
  g_timestamp :: time

record pstate =
  sess_Info :: SessionInfo
  sess_Events :: "Event list"
  assistantMessages :: "string \<rightharpoonup> assistantGroup"
  allEntries :: "rawEntry list"
  filesRead :: "string set"
  filesWritten :: "string set"
  filesCreated :: "string set"
  seenMessageIDs :: "string set"

definition init_state :: "string \<Rightarrow> pstate" where
  "init_state path =
     (let basename = Base path;
          dirName = Base (Dir path);
          projectDir = ReplaceAll dirName ''-'' ''/''
      in \<lparr> sess_Info = zero_SessionInfo\<lparr>
              i_ID := TrimSuffix basename ''.jsonl'',
              i_ProjectDir := projectDir,
              i_ProjectName := Base projectDir,
              i_FilePath := path,
              i_IsAgent := HasPrefix basename ''agent-'' \<rparr>,
            sess_Events = [],
            assistantMessages = Map.empty,
            allEntries = [],
            filesRead = {}, filesWritten = {}, filesCreated = {},
            seenMessageIDs = {} \<rparr>)"

text \<open>First loop, the \<open>assistant\<close> case: keep, per message id, the record seen first
  unless a later one has a timestamp after it.\<close>

definition resolve ::
  "lib \<Rightarrow> rawEntry \<Rightarrow> (string \<rightharpoonup> assistantGroup) \<Rightarrow> (string \<rightharpoonup> assistantGroup)" where
  "resolve lib entry am =
     (if e_Type entry = ''assistant'' then
        (case e_Message entry of
           None \<Rightarrow> am
         | Some msg \<Rightarrow>
             if m_ID msg \<noteq> [] then
               (let ts = parseTimestamp lib (e_Timestamp entry) in
                case am (m_ID msg) of
                  None \<Rightarrow> am(m_ID msg \<mapsto> \<lparr> g_entry = entry, g_timestamp = ts \<rparr>)
                | Some existing \<Rightarrow>
                    if After ts (g_timestamp existing)
                    then am(m_ID msg \<mapsto> \<lparr> g_entry = entry, g_timestamp = ts \<rparr>)
                    else am)
             else am)
      else am)"

definition first_model :: "rawEntry \<Rightarrow> SessionInfo \<Rightarrow> SessionInfo" where
  "first_model entry info =
     (if e_Type entry = ''assistant'' then
        (case e_Message entry of
           None \<Rightarrow> info
         | Some msg \<Rightarrow>
             if m_ID msg \<noteq> [] \<and> i_Model info = [] \<and> m_Model msg \<noteq> []
             then info\<lparr> i_Model := m_Model msg \<rparr>
             else info)
      else info)"

definition first_cwd :: "rawEntry \<Rightarrow> SessionInfo \<Rightarrow> SessionInfo" where
  "first_cwd entry info =
     (if i_CWD info = [] \<and> e_CWD entry \<noteq> [] then info\<lparr> i_CWD := e_CWD entry \<rparr> else info)"

text \<open>The body of the first loop, for one line the scanner returned.\<close>

definition read_line :: "lib \<Rightarrow> string \<Rightarrow> pstate \<Rightarrow> pstate" where
  "read_line lib line st =
     (if length line = 0 then st
      else case json_Unmarshal lib line of
        None \<Rightarrow> st
      | Some entry \<Rightarrow>
          st\<lparr> allEntries := allEntries st @ [entry],
              sess_Info := first_model entry (first_cwd entry (sess_Info st)),
              assistantMessages := resolve lib entry (assistantMessages st) \<rparr>)"

text \<open>Second loop: the running start and last-update times.\<close>

definition bump_times :: "time \<Rightarrow> SessionInfo \<Rightarrow> SessionInfo" where
  "bump_times ts info =
     (let info1 = (if IsZero (i_StartTime info) \<or> (\<not> IsZero ts \<and> Before ts (i_StartTime info))
                   then info\<lparr> i_StartTime := ts \<rparr> else info)
      in if After ts (i_LastUpdate info1) then info1\<lparr> i_LastUpdate := ts \<rparr> else info1)"

text \<open>The counting loop over the events of a user record.\<close>

definition count_user :: "Event \<Rightarrow> SessionInfo \<Rightarrow> SessionInfo" where
  "count_user e info =
     (let info1 = (if ev_Type e = EventUserPrompt
                   then info\<lparr> i_UserPrompts := i_UserPrompts info + 1 \<rparr> else info)
      in if ev_Type e = EventToolResult \<and> ev_IsError e
         then info1\<lparr> i_Errors := i_Errors info1 + 1 \<rparr> else info1)"

text \<open>The tracking loop over the events of an assistant record.\<close>

definition track_tool :: "Event \<Rightarrow> pstate \<Rightarrow> pstate" where
  "track_tool e st =
     (if ev_Type e = EventToolUse then
        (let st1 = st\<lparr> sess_Info := (sess_Info st)\<lparr>
                        i_ToolCallCount := i_ToolCallCount (sess_Info st) + 1 \<rparr> \<rparr>;
             fp = as_string (lookup (ev_ToolInput e) ''file_path'')
         in if ev_ToolName e = ''Read'' then
              (case fp of Some f \<Rightarrow> st1\<lparr> filesRead := insert f (filesRead st1) \<rparr>
                        | None \<Rightarrow> st1)
            else if ev_ToolName e = ''Write'' then
              (case fp of Some f \<Rightarrow> st1\<lparr> filesCreated := insert f (filesCreated st1) \<rparr>
                        | None \<Rightarrow> st1)
            else if ev_ToolName e = ''Edit'' then
              (case fp of Some f \<Rightarrow> st1\<lparr> filesWritten := insert f (filesWritten st1) \<rparr>
                        | None \<Rightarrow> st1)
            else if ev_ToolName e = ''Bash'' then
              st1\<lparr> sess_Info := (sess_Info st1)\<lparr>
                     i_BashCommands := i_BashCommands (sess_Info st1) + 1 \<rparr> \<rparr>
            else st1)
      else st)"

definition add_usage :: "rawUsage option \<Rightarrow> SessionInfo \<Rightarrow> SessionInfo" where
  "add_usage usage info =
     (case usage of
        None \<Rightarrow> info
      | Some u \<Rightarrow> info\<lparr>
          i_InputTokens := i_InputTokens info + u_InputTokens u,
          i_OutputTokens := i_OutputTokens info + u_OutputTokens u,
          i_CacheReadTokens := i_CacheReadTokens info + u_CacheReadInputTokens u,
          i_CacheWriteTokens := i_CacheWriteTokens info + u_CacheCreationInputTokens u \<rparr>)"

text \<open>
  The \<open>assistant\<close> case of the second loop passes four guards before it emits:
  the record has a message with a non-empty id, the id has not been emitted, the
  first loop kept a record for the id, and the UUID of this record is the UUID of
  the kept one. \<open>emits\<close> is their conjunction.
\<close>

definition emits :: "pstate \<Rightarrow> rawEntry \<Rightarrow> bool" where
  "emits st entry =
     (case e_Message entry of
        None \<Rightarrow> False
      | Some msg \<Rightarrow>
          m_ID msg \<noteq> [] \<and> m_ID msg \<notin> seenMessageIDs st
          \<and> (case assistantMessages st (m_ID msg) of
                None \<Rightarrow> False
              | Some final \<Rightarrow> e_UUID entry = e_UUID (g_entry final)))"

text \<open>
  The emission itself. \<open>final.entry.Message.Usage\<close> dereferences the message
  without a nil check; the first loop stores only records with a message (lemma
  \<open>resolved_has_message\<close> below), so the \<open>None\<close> branch of \<open>final_usage\<close> is
  never taken on a stored record.
\<close>

definition final_usage :: "assistantGroup \<Rightarrow> rawUsage option" where
  "final_usage final =
     (case e_Message (g_entry final) of None \<Rightarrow> None | Some fm \<Rightarrow> m_Usage fm)"

definition emit :: "lib \<Rightarrow> string \<Rightarrow> assistantGroup \<Rightarrow> time \<Rightarrow> pstate \<Rightarrow> pstate" where
  "emit lib mid final ts st =
     (let st1 = st\<lparr> seenMessageIDs := insert mid (seenMessageIDs st) \<rparr>;
          events = parseAssistantMessage lib (g_entry final) ts;
          st2 = st1\<lparr> sess_Events := sess_Events st1 @ events \<rparr>;
          st3 = fold track_tool events st2
      in st3\<lparr> sess_Info :=
           add_usage (final_usage final) (sess_Info st3) \<rparr>)"

text \<open>The body of the second loop, for one decoded record.\<close>

definition timeline_step :: "lib \<Rightarrow> rawEntry \<Rightarrow> pstate \<Rightarrow> pstate" where
  "timeline_step lib entry st0 =
     (let ts = parseTimestamp lib (e_Timestamp entry);
          st = st0\<lparr> sess_Info := bump_times ts (sess_Info st0) \<rparr>
      in if e_Type entry = ''system'' then
           (if e_Subtype entry = ''compact_boundary'' then
              st\<lparr> sess_Events := sess_Events st @
                [zero_Event\<lparr> ev_Type := EventCompaction, ev_Timestamp := ts,
                   ev_UUID := e_UUID entry,
                   ev_CompactPreTokens :=
                     (case e_CompactMetadata entry of None \<Rightarrow> 0 | Some cm \<Rightarrow> cm_PreTokens cm),
                   ev_CompactTrigger :=
                     (case e_CompactMetadata entry of None \<Rightarrow> [] | Some cm \<Rightarrow> cm_Trigger cm)
                 \<rparr>] \<rparr>
            else st)
         else if e_Type entry = ''user'' then
           (if e_Message entry = None then st
            else if e_IsCompactSummary entry then st
            else let events = parseUserMessage lib entry ts
                 in st\<lparr> sess_Events := sess_Events st @ events,
                        sess_Info := fold count_user events (sess_Info st) \<rparr>)
         else if e_Type entry = ''assistant'' then
           (if emits st entry then
              (case e_Message entry of
                 None \<Rightarrow> st
               | Some msg \<Rightarrow> (case assistantMessages st (m_ID msg) of
                                None \<Rightarrow> st
                              | Some final \<Rightarrow> emit lib (m_ID msg) final ts st))
            else st)
         else st)"

text \<open>The two loops: the state when the second loop ends.\<close>

definition read_all :: "lib \<Rightarrow> string \<Rightarrow> string \<Rightarrow> pstate" where
  "read_all lib path content =
     fold (read_line lib) (scanner_lines maxLine content) (init_state path)"

definition parse_file :: "lib \<Rightarrow> string \<Rightarrow> string \<Rightarrow> pstate" where
  "parse_file lib path content =
     (let st = read_all lib path content
      in fold (timeline_step lib) (allEntries st) st)"

text \<open>
  The last lines of \<open>ParseSessionFile\<close> range over the three maps to fill the slices.
  Go leaves the order in which \<open>range\<close> visits the keys of a map unspecified and the
  runtime varies it from one loop to the next; \<open>range_order S ks\<close> says that \<open>ks\<close> is
  one of the orders in which a map with the key set \<open>S\<close> can be visited.
\<close>

definition range_order :: "string set \<Rightarrow> string list \<Rightarrow> bool" where
  "range_order S ks = (distinct ks \<and> set ks = S)"

definition finish :: "pstate \<Rightarrow> string list \<Rightarrow> string list \<Rightarrow> string list \<Rightarrow> Session" where
  "finish st rd wr cr =
     (let info1 = (sess_Info st)\<lparr> i_FilesRead := rd, i_FilesWritten := wr,
                     i_FilesCreated := cr \<rparr>;
          info2 = info1\<lparr> i_EventCount := of_nat (length (sess_Events st)) \<rparr>;
          info3 = info2\<lparr> i_CostUSD := estimateCost info2 \<rparr>
      in \<lparr> s_Info = info3, s_Events = sess_Events st \<rparr>)"

text \<open>
  The file system as the parser and the store see it: \<open>fs_Open path\<close> is the content
  of the file when \<open>os.Open\<close> succeeds, \<open>fs_ReadDir path\<close> the entries of the
  directory when \<open>os.ReadDir\<close> succeeds.
\<close>

record dirent =
  d_Name :: string
  d_IsDir :: bool

record fs =
  fs_Open :: "string \<rightharpoonup> string"
  fs_ReadDir :: "string \<rightharpoonup> dirent list"

datatype error = OpenError | ReadDirError

text \<open>
  \<open>ParseSessionFile lib fs path res\<close>: the call \<open>ParseSessionFile(path)\<close> can return
  \<open>res\<close>, an error (\<open>Inl\<close>) or a session (\<open>Inr\<close>).
\<close>

definition ParseSessionFile :: "lib \<Rightarrow> fs \<Rightarrow> string \<Rightarrow> error + Session \<Rightarrow> bool" where
  "ParseSessionFile lib fs path res =
     (case fs_Open fs path of
        None \<Rightarrow> res = Inl OpenError
      | Some content \<Rightarrow>
          (case res of
             Inl err \<Rightarrow> False
           | Inr sess \<Rightarrow>
               (let st = parse_file lib path content
                in range_order (filesRead st) (i_FilesRead (s_Info sess))
                   \<and> range_order (filesWritten st) (i_FilesWritten (s_Info sess))
                   \<and> range_order (filesCreated st) (i_FilesCreated (s_Info sess))
                   \<and> sess = finish st (i_FilesRead (s_Info sess))
                        (i_FilesWritten (s_Info sess)) (i_FilesCreated (s_Info sess)))))"

subsection \<open>The store (store.go)\<close>

text \<open>
  Of the \<open>Store\<close> the model keeps the map \<open>sessions\<close> and \<open>baseDir\<close>. The mutex
  makes every access to the map atomic, so each access is one step here; the watcher
  and the channel are not state that the index depends on.
\<close>

record Store =
  sessions :: "string \<rightharpoonup> Session"
  baseDir :: string

definition NewStore :: "string \<Rightarrow> Store" where
  "NewStore homeDir =
     \<lparr> sessions = Map.empty, baseDir = Join (Join homeDir ''.claude'') ''projects'' \<rparr>"

text \<open>The inner loop of \<open>Scan\<close>, over the files of one project directory.\<close>

inductive scan_files :: "lib \<Rightarrow> fs \<Rightarrow> string \<Rightarrow> dirent list \<Rightarrow> Store \<Rightarrow> Store \<Rightarrow> bool"
  for lib :: lib and fs :: fs and projectDir :: string
where
  files_done: "scan_files lib fs projectDir [] s s"
| files_skip:
    "d_IsDir f \<or> \<not> HasSuffix (d_Name f) ''.jsonl'' \<Longrightarrow>
     scan_files lib fs projectDir files s s' \<Longrightarrow>
     scan_files lib fs projectDir (f # files) s s'"
| files_error:
    "\<not> (d_IsDir f \<or> \<not> HasSuffix (d_Name f) ''.jsonl'') \<Longrightarrow>
     ParseSessionFile lib fs (Join projectDir (d_Name f)) (Inl err) \<Longrightarrow>
     scan_files lib fs projectDir files s s' \<Longrightarrow>
     scan_files lib fs projectDir (f # files) s s'"
| files_empty:
    "\<not> (d_IsDir f \<or> \<not> HasSuffix (d_Name f) ''.jsonl'') \<Longrightarrow>
     ParseSessionFile lib fs (Join projectDir (d_Name f)) (Inr sess) \<Longrightarrow>
     length (s_Events sess) = 0 \<Longrightarrow>
     scan_files lib fs projectDir files s s' \<Longrightarrow>
     scan_files lib fs projectDir (f # files) s s'"
| files_put:
    "\<not> (d_IsDir f \<or> \<not> HasSuffix (d_Name f) ''.jsonl'') \<Longrightarrow>
     ParseSessionFile lib fs (Join projectDir (d_Name f)) (Inr sess) \<Longrightarrow>
     length (s_Events sess) \<noteq> 0 \<Longrightarrow>
     scan_files lib fs projectDir files
       (s\<lparr> sessions := (sessions s)(i_ID (s_Info sess) \<mapsto> sess) \<rparr>) s' \<Longrightarrow>
     scan_files lib fs projectDir (f # files) s s'"

text \<open>The outer loop of \<open>Scan\<close>, over the entries of the base directory.\<close>

inductive scan_dirs :: "lib \<Rightarrow> fs \<Rightarrow> dirent list \<Rightarrow> Store \<Rightarrow> Store \<Rightarrow> bool"
  for lib :: lib and fs :: fs
where
  dirs_done: "scan_dirs lib fs [] s s"
| dirs_not_dir:
    "\<not> d_IsDir entry \<Longrightarrow> scan_dirs lib fs entries s s' \<Longrightarrow>
     scan_dirs lib fs (entry # entries) s s'"
| dirs_unreadable:
    "d_IsDir entry \<Longrightarrow> fs_ReadDir fs (Join (baseDir s) (d_Name entry)) = None \<Longrightarrow>
     scan_dirs lib fs entries s s' \<Longrightarrow>
     scan_dirs lib fs (entry # entries) s s'"
| dirs_project:
    "d_IsDir entry \<Longrightarrow> fs_ReadDir fs (Join (baseDir s) (d_Name entry)) = Some files \<Longrightarrow>
     scan_files lib fs (Join (baseDir s) (d_Name entry)) files s s1 \<Longrightarrow>
     scan_dirs lib fs entries s1 s' \<Longrightarrow>
     scan_dirs lib fs (entry # entries) s s'"

text \<open>\<open>Scan lib fs s (err, s')\<close>: the call \<open>s.Scan()\<close> can return \<open>err\<close> and leave the
  store \<open>s'\<close>.\<close>

inductive Scan :: "lib \<Rightarrow> fs \<Rightarrow> Store \<Rightarrow> error option \<times> Store \<Rightarrow> bool"
  for lib :: lib and fs :: fs
where
  scan_error: "fs_ReadDir fs (baseDir s) = None \<Longrightarrow> Scan lib fs s (Some ReadDirError, s)"
| scan_ok:
    "fs_ReadDir fs (baseDir s) = Some entries \<Longrightarrow> scan_dirs lib fs entries s s' \<Longrightarrow>
     Scan lib fs s (None, s')"

text \<open>
  \<open>Watch\<close>: an event of the watcher passes two filters (the name ends in \<open>.jsonl\<close>,
  the operation has the Write or the Create bit) and arms the debounce timer; when
  the timer fires, its function re-parses the file. \<open>watch_accepts\<close> is the filter and
  \<open>reparse\<close> the timer's function. The bits of \<open>fsnotify.Op\<close> are Create = 1 and
  Write = 2.
\<close>

definition fsnotify_Create :: "32 word" where
  "fsnotify_Create = 1"

definition fsnotify_Write :: "32 word" where
  "fsnotify_Write = 2"

definition watch_accepts :: "string \<Rightarrow> 32 word \<Rightarrow> bool" where
  "watch_accepts name op =
     (HasSuffix name ''.jsonl''
      \<and> and op (or fsnotify_Write fsnotify_Create) \<noteq> 0)"

inductive reparse :: "lib \<Rightarrow> fs \<Rightarrow> string \<Rightarrow> Store \<Rightarrow> Store \<Rightarrow> bool"
  for lib :: lib and fs :: fs and path :: string
where
  reparse_error: "ParseSessionFile lib fs path (Inl err) \<Longrightarrow> reparse lib fs path s s"
| reparse_empty:
    "ParseSessionFile lib fs path (Inr sess) \<Longrightarrow> length (s_Events sess) = 0 \<Longrightarrow>
     reparse lib fs path s s"
| reparse_put:
    "ParseSessionFile lib fs path (Inr sess) \<Longrightarrow> length (s_Events sess) \<noteq> 0 \<Longrightarrow>
     reparse lib fs path s (s\<lparr> sessions := (sessions s)(i_ID (s_Info sess) \<mapsto> sess) \<rparr>)"

definition GetSession :: "Store \<Rightarrow> string \<Rightarrow> Session option" where
  "GetSession s ident = sessions s ident"

text \<open>
  \<open>GetSessions\<close> ranges over the map and sorts with \<open>sort.Slice\<close>, which is not
  stable: the result is some arrangement of the infos of the stored sessions in which
  no info is followed by one with a later \<open>LastUpdate\<close>. \<open>GetSessions s infos\<close> says
  that the call can return \<open>infos\<close>.
\<close>

definition GetSessions :: "Store \<Rightarrow> SessionInfo list \<Rightarrow> bool" where
  "GetSessions s infos =
     (mset infos = image_mset (\<lambda>k. s_Info (the (sessions s k))) (mset_set (dom (sessions s)))
      \<and> sorted_wrt (\<lambda>a b. \<not> After (i_LastUpdate b) (i_LastUpdate a)) infos)"

text \<open>
  The stores the program can reach: a new store, then any sequence of scans and of
  timer functions fired for accepted events, each against the file system as it is at
  that moment.
\<close>

inductive reachable :: "lib \<Rightarrow> Store \<Rightarrow> bool"
  for lib :: lib
where
  reach_new: "reachable lib (NewStore homeDir)"
| reach_scan: "reachable lib s \<Longrightarrow> Scan lib fs s (err, s') \<Longrightarrow> reachable lib s'"
| reach_watch:
    "reachable lib s \<Longrightarrow> watch_accepts name op \<Longrightarrow> reparse lib fs name s s' \<Longrightarrow>
     reachable lib s'"

subsection \<open>Observations on a run of the parser\<close>

text \<open>
  \<open>decoded lib ls\<close> are the records that the lines \<open>ls\<close> decode to, in order: an
  empty line and a line that \<open>json.Unmarshal\<close> rejects give none.
\<close>

definition decoded :: "lib \<Rightarrow> string list \<Rightarrow> rawEntry list" where
  "decoded lib ls =
     concat (map (\<lambda>l. if l = [] then []
                       else case json_Unmarshal lib l of None \<Rightarrow> [] | Some e \<Rightarrow> [e]) ls)"

text \<open>The second loop alone, and the state it is in when it reaches the record with
  index \<open>i\<close>.\<close>

definition timeline :: "lib \<Rightarrow> rawEntry list \<Rightarrow> pstate \<Rightarrow> pstate" where
  "timeline lib es st = fold (timeline_step lib) es st"

definition state_at :: "lib \<Rightarrow> string \<Rightarrow> string \<Rightarrow> nat \<Rightarrow> pstate" where
  "state_at lib path content i =
     (let st = read_all lib path content
      in timeline lib (take i (allEntries st)) st)"

text \<open>The records of a file as the second loop walks them: \<open>allEntries\<close> after the
  first loop.\<close>

definition file_entries :: "lib \<Rightarrow> string \<Rightarrow> string \<Rightarrow> rawEntry list" where
  "file_entries lib path content = allEntries (read_all lib path content)"

text \<open>\<open>step_events\<close> are the events one pass through the body of the second loop
  appends to \<open>sess.Events\<close>; \<open>blocks\<close> lists them record by record.\<close>

definition step_events :: "lib \<Rightarrow> rawEntry \<Rightarrow> pstate \<Rightarrow> Event list" where
  "step_events lib e st =
     drop (length (sess_Events st)) (sess_Events (timeline_step lib e st))"

fun blocks :: "lib \<Rightarrow> rawEntry list \<Rightarrow> pstate \<Rightarrow> Event list list" where
  "blocks lib [] st = []"
| "blocks lib (e # es) st = step_events lib e st # blocks lib es (timeline_step lib e st)"

definition file_blocks :: "lib \<Rightarrow> string \<Rightarrow> string \<Rightarrow> Event list list" where
  "file_blocks lib path content =
     (let st = read_all lib path content in blocks lib (allEntries st) st)"

text \<open>The same events, read off the cases of the loop body: \<open>appended\<close> is what the
  body appends for a record \<open>e\<close> met in the state \<open>st\<close> (lemma \<open>step_events_appended\<close>).\<close>

definition appended :: "lib \<Rightarrow> rawEntry \<Rightarrow> pstate \<Rightarrow> Event list" where
  "appended lib e st =
     (let ts = parseTimestamp lib (e_Timestamp e)
      in if e_Type e = ''system'' then
           (if e_Subtype e = ''compact_boundary'' then
              [zero_Event\<lparr> ev_Type := EventCompaction, ev_Timestamp := ts,
                 ev_UUID := e_UUID e,
                 ev_CompactPreTokens :=
                   (case e_CompactMetadata e of None \<Rightarrow> 0 | Some cm \<Rightarrow> cm_PreTokens cm),
                 ev_CompactTrigger :=
                   (case e_CompactMetadata e of None \<Rightarrow> [] | Some cm \<Rightarrow> cm_Trigger cm) \<rparr>]
            else [])
         else if e_Type e = ''user'' then
           (if e_Message e = None \<or> e_IsCompactSummary e then []
            else parseUserMessage lib e ts)
         else if e_Type e = ''assistant'' \<and> emits st e then
           (case e_Message e of
              None \<Rightarrow> []
            | Some msg \<Rightarrow> (case assistantMessages st (m_ID msg) of
                             None \<Rightarrow> []
                           | Some final \<Rightarrow> parseAssistantMessage lib (g_entry final) ts))
         else [])"

text \<open>The message id of an assistant record, when it has a message.\<close>

definition message_id :: "rawEntry \<Rightarrow> string option" where
  "message_id e =
     (if e_Type e = ''assistant'' then map_option m_ID (e_Message e) else None)"

text \<open>\<open>step_ids\<close> is the message id for which one pass through the body of the
  second loop takes the emission branch (the id it stores in \<open>seenMessageIDs\<close>), if
  it does; \<open>emit_ids\<close> lists these ids in order.\<close>

definition step_ids :: "lib \<Rightarrow> rawEntry \<Rightarrow> pstate \<Rightarrow> string list" where
  "step_ids lib e st =
     (if e_Type e = ''assistant'' \<and> emits st e
      then (case e_Message e of None \<Rightarrow> [] | Some msg \<Rightarrow> [m_ID msg])
      else [])"

fun emit_ids :: "lib \<Rightarrow> rawEntry list \<Rightarrow> pstate \<Rightarrow> string list" where
  "emit_ids lib [] st = []"
| "emit_ids lib (e # es) st = step_ids lib e st @ emit_ids lib es (timeline_step lib e st)"

definition file_emit_ids :: "lib \<Rightarrow> string \<Rightarrow> string \<Rightarrow> string list" where
  "file_emit_ids lib path content =
     (let st = read_all lib path content in emit_ids lib (allEntries st) st)"

text \<open>The authoritative records of a file: what the first loop leaves in
  \<open>assistantMessages\<close>.\<close>

definition authoritative :: "lib \<Rightarrow> string \<Rightarrow> string \<Rightarrow> (string \<rightharpoonup> assistantGroup)" where
  "authoritative lib path content = assistantMessages (read_all lib path content)"

text \<open>The invariant of the first loop: every stored record is one of the records read
  so far, an assistant record with the message id it is stored under, and is stored
  with its own timestamp.\<close>

definition stored_ok :: "lib \<Rightarrow> rawEntry set \<Rightarrow> (string \<rightharpoonup> assistantGroup) \<Rightarrow> bool" where
  "stored_ok lib E am =
     (\<forall>mid g. am mid = Some g \<longrightarrow>
        g_entry g \<in> E \<and> message_id (g_entry g) = Some mid \<and> mid \<noteq> []
        \<and> g_timestamp g = parseTimestamp lib (e_Timestamp (g_entry g)))"

text \<open>The four counters of a usage block, zero where there is none.\<close>

definition usage_in :: "rawUsage option \<Rightarrow> 64 word" where
  "usage_in u = (case u of None \<Rightarrow> 0 | Some r \<Rightarrow> u_InputTokens r)"

definition usage_out :: "rawUsage option \<Rightarrow> 64 word" where
  "usage_out u = (case u of None \<Rightarrow> 0 | Some r \<Rightarrow> u_OutputTokens r)"

definition usage_cache_read :: "rawUsage option \<Rightarrow> 64 word" where
  "usage_cache_read u = (case u of None \<Rightarrow> 0 | Some r \<Rightarrow> u_CacheReadInputTokens r)"

definition usage_cache_write :: "rawUsage option \<Rightarrow> 64 word" where
  "usage_cache_write u = (case u of None \<Rightarrow> 0 | Some r \<Rightarrow> u_CacheCreationInputTokens r)"

text \<open>The message ids of a file whose authoritative record carries a usage block.\<close>

definition ids_with_usage :: "lib \<Rightarrow> string \<Rightarrow> string \<Rightarrow> string set" where
  "ids_with_usage lib path content =
     {mid \<in> dom (authoritative lib path content).
        final_usage (the (authoritative lib path content mid)) \<noteq> None}"

text \<open>
  The authoritative record of a message identifier in the words of the specification:
  among the records of the file that share the identifier a strictly greater timestamp
  wins and, on equal timestamps, the record occurring later in the file.
  \<open>revisions\<close> are the records that share an identifier, in file order;
  \<open>latest_revision\<close> lets an earlier record win over the best of the later ones
  only with a strictly greater timestamp.
\<close>

definition revisions :: "rawEntry list \<Rightarrow> string \<Rightarrow> rawEntry list" where
  "revisions es mid = filter (\<lambda>e. message_id e = Some mid) es"

fun latest_revision :: "lib \<Rightarrow> rawEntry list \<Rightarrow> rawEntry option" where
  "latest_revision lib [] = None"
| "latest_revision lib (e # es) =
     (case latest_revision lib es of
        None \<Rightarrow> Some e
      | Some l \<Rightarrow>
          if parseTimestamp lib (e_Timestamp l) < parseTimestamp lib (e_Timestamp e)
          then Some e else Some l)"

definition spec_authoritative :: "lib \<Rightarrow> rawEntry list \<Rightarrow> string \<Rightarrow> rawEntry option" where
  "spec_authoritative lib es mid = latest_revision lib (revisions es mid)"


definition replace_dashes :: "string \<Rightarrow> string" where
  "replace_dashes s = map (\<lambda>c. if c = CHR ''-'' then sep else c) s"

subsection \<open>Sample records and files\<close>

text \<open>
  The sample inputs on which the theorems below are exercised. \<open>sample_lib\<close> stands
  for the standard library on the sample lines only: a table gives the record each
  line decodes to (every other line is malformed) and the instant each timestamp
  string denotes.
\<close>

definition zero_rawMessage :: rawMessage where
  "zero_rawMessage = \<lparr> m_Role = [], m_Content = JNull, m_Model = [], m_Usage = None,
     m_ID = [] \<rparr>"

definition zero_rawEntry :: rawEntry where
  "zero_rawEntry = \<lparr> e_Type = [], e_Subtype = [], e_UUID = [], e_ParentUUID = None,
     e_SessionID = [], e_CWD = [], e_Timestamp = [], e_Version = [], e_GitBranch = [],
     e_Message = None, e_Content = [], e_CompactMetadata = None,
     e_IsCompactSummary = False \<rparr>"

definition r_user_hi :: rawEntry where
  "r_user_hi = zero_rawEntry\<lparr> e_Type := ''user'', e_UUID := ''u1'', e_Timestamp := ''t0'',
     e_Message := Some (zero_rawMessage\<lparr> m_Role := ''user'', m_Content := JString ''hi'' \<rparr>) \<rparr>"

definition r_asst_bash :: rawEntry where
  "r_asst_bash = zero_rawEntry\<lparr> e_Type := ''assistant'', e_UUID := ''a1'',
     e_Timestamp := ''t1'',
     e_Message := Some (zero_rawMessage\<lparr> m_Role := ''assistant'',
       m_Content := JArray [JObject [(''type'', JString ''tool_use''),
         (''name'', JString ''Bash''), (''id'', JString ''tool1''),
         (''input'', JObject [(''command'', JString ''ls'')])]],
       m_Usage := Some \<lparr> u_InputTokens = 10, u_OutputTokens = 5,
         u_CacheCreationInputTokens = 0, u_CacheReadInputTokens = 0 \<rparr>,
       m_ID := ''m1'' \<rparr>) \<rparr>"

definition r_asst_partial :: rawEntry where
  "r_asst_partial = zero_rawEntry\<lparr> e_Type := ''assistant'', e_UUID := ''a0'',
     e_Timestamp := ''t0'',
     e_Message := Some (zero_rawMessage\<lparr> m_Role := ''assistant'',
       m_Content := JArray [JObject [(''type'', JString ''text''),
         (''text'', JString ''running'')]],
       m_Usage := Some \<lparr> u_InputTokens = 10, u_OutputTokens = 1,
         u_CacheCreationInputTokens = 0, u_CacheReadInputTokens = 0 \<rparr>,
       m_ID := ''m1'' \<rparr>) \<rparr>"

definition r_tool_result :: rawEntry where
  "r_tool_result = zero_rawEntry\<lparr> e_Type := ''user'', e_UUID := ''u2'',
     e_Timestamp := ''t2'',
     e_Message := Some (zero_rawMessage\<lparr> m_Role := ''user'',
       m_Content := JArray [JObject [(''type'', JString ''tool_result''),
         (''tool_use_id'', JString ''tool1''), (''content'', JString ''file.txt''),
         (''is_error'', JBool False)]] \<rparr>) \<rparr>"

definition r_tie_first :: rawEntry where
  "r_tie_first = zero_rawEntry\<lparr> e_Type := ''assistant'', e_UUID := ''b1'',
     e_Timestamp := ''t1'',
     e_Message := Some (zero_rawMessage\<lparr> m_Role := ''assistant'',
       m_Content := JArray [JObject [(''type'', JString ''text''),
         (''text'', JString ''one'')]],
       m_Usage := Some \<lparr> u_InputTokens = 10, u_OutputTokens = 1,
         u_CacheCreationInputTokens = 0, u_CacheReadInputTokens = 0 \<rparr>,
       m_ID := ''m7'' \<rparr>) \<rparr>"

definition r_tie_second :: rawEntry where
  "r_tie_second = zero_rawEntry\<lparr> e_Type := ''assistant'', e_UUID := ''b2'',
     e_Timestamp := ''t1'',
     e_Message := Some (zero_rawMessage\<lparr> m_Role := ''assistant'',
       m_Content := JArray [JObject [(''type'', JString ''text''),
         (''text'', JString ''one two'')]],
       m_Usage := Some \<lparr> u_InputTokens = 10, u_OutputTokens = 2,
         u_CacheCreationInputTokens = 0, u_CacheReadInputTokens = 0 \<rparr>,
       m_ID := ''m7'' \<rparr>) \<rparr>"

definition r_asst_reads :: rawEntry where
  "r_asst_reads = zero_rawEntry\<lparr> e_Type := ''assistant'', e_UUID := ''c1'',
     e_Timestamp := ''t1'',
     e_Message := Some (zero_rawMessage\<lparr> m_Role := ''assistant'',
       m_Content := JArray
         [JObject [(''type'', JString ''tool_use''), (''name'', JString ''Read''),
            (''id'', JString ''tool2''),
            (''input'', JObject [(''file_path'', JString ''a.go'')])],
          JObject [(''type'', JString ''tool_use''), (''name'', JString ''Read''),
            (''id'', JString ''tool3''),
            (''input'', JObject [(''file_path'', JString ''b.go'')])]],
       m_ID := ''m2'' \<rparr>) \<rparr>"

definition r_summary :: rawEntry where
  "r_summary = zero_rawEntry\<lparr> e_Type := ''user'', e_UUID := ''u3'', e_Timestamp := ''t1'',
     e_Message := Some (zero_rawMessage\<lparr> m_Role := ''user'',
       m_Content := JString ''summary of the conversation so far'' \<rparr>),
     e_IsCompactSummary := True \<rparr>"

definition r_asst_noid :: rawEntry where
  "r_asst_noid = zero_rawEntry\<lparr> e_Type := ''assistant'', e_UUID := ''d1'',
     e_Timestamp := ''t2'',
     e_Message := Some (zero_rawMessage\<lparr> m_Role := ''assistant'',
       m_Content := JArray [JObject [(''type'', JString ''text''),
         (''text'', JString ''lost'')]],
       m_Usage := Some \<lparr> u_InputTokens = 7, u_OutputTokens = 3,
         u_CacheCreationInputTokens = 2, u_CacheReadInputTokens = 1 \<rparr> \<rparr>) \<rparr>"

definition sample_Unmarshal :: "string \<Rightarrow> rawEntry option" where
  "sample_Unmarshal line =
     (if line = ''user-hi'' then Some r_user_hi
      else if line = ''asst-bash'' then Some r_asst_bash
      else if line = ''asst-partial'' then Some r_asst_partial
      else if line = ''tool-result'' then Some r_tool_result
      else if line = ''tie-first'' then Some r_tie_first
      else if line = ''tie-second'' then Some r_tie_second
      else if line = ''asst-reads'' then Some r_asst_reads
      else if line = ''summary'' then Some r_summary
      else if line = ''asst-noid'' then Some r_asst_noid
      else None)"

definition sample_time_Parse :: "layout \<Rightarrow> string \<Rightarrow> time option" where
  "sample_time_Parse l s =
     (if s = ''t0'' then Some 100
      else if s = ''t1'' then Some 200
      else if s = ''t2'' then Some 300
      else None)"

definition sample_TrimSpace :: "string \<Rightarrow> string" where
  "sample_TrimSpace s =
     rev (dropWhile (\<lambda>c. c = CHR '' '') (rev (dropWhile (\<lambda>c. c = CHR '' '') s)))"

definition sample_lib :: lib where
  "sample_lib = \<lparr> json_Unmarshal = sample_Unmarshal, json_Marshal = (\<lambda>v. ''null''),
     time_Parse = sample_time_Parse, strings_TrimSpace = sample_TrimSpace \<rparr>"

text \<open>A file is written as the list of its lines, each ended by a line feed.\<close>

definition file_of :: "string list \<Rightarrow> string" where
  "file_of ls = concat (map (\<lambda>l. l @ [LF]) ls)"

definition sample_path :: string where
  "sample_path = ''/home/u/.claude/projects/-home-u-proj/s1.jsonl''"

definition fs_with :: "string \<Rightarrow> string \<Rightarrow> fs" where
  "fs_with path content = \<lparr> fs_Open = [path \<mapsto> content], fs_ReadDir = Map.empty \<rparr>"

text \<open>A message \<open>m1\<close> written three times: an early partial record, then (after a
  truncated line) its final record twice.\<close>

definition file_revisions :: string where
  "file_revisions = file_of [''asst-partial'', ''{trunc'', ''asst-bash'', ''asst-bash'']"

text \<open>The session of the specification's worked example: a prompt, a \<open>Bash\<close> call and
  its result, in the order of their timestamps.\<close>

definition file_example :: string where
  "file_example = file_of [''user-hi'', ''asst-bash'', ''tool-result'']"

text \<open>The same kind of records with the later timestamp first.\<close>

definition file_unordered :: string where
  "file_unordered = file_of [''tool-result'', ''user-hi'']"

text \<open>A prompt followed by a compaction summary and by an assistant record whose
  message has no id.\<close>

definition file_quiet :: string where
  "file_quiet = file_of [''user-hi'', ''summary'', ''asst-noid'']"

text \<open>An assistant message that reads two files.\<close>

definition file_reads :: string where
  "file_reads = file_of [''asst-reads'']"

text \<open>A line as long as the scanner's limit, which no sample line is, and a file in
  which a prompt follows it.\<close>

definition long_line :: string where
  "long_line = replicate maxLine (CHR ''x'')"

definition file_long_line :: string where
  "file_long_line = long_line @ LF # file_of [''user-hi'']"

text \<open>A file that holds nothing but an assistant record whose message has no id.\<close>

definition file_noid :: string where
  "file_noid = file_of [''asst-noid'']"

text \<open>A prompt and a truncated line, then a line as long as the scanner's limit and a
  tool result after it.\<close>

definition file_cut :: string where
  "file_cut = file_of [''user-hi'', ''{trunc''] @ long_line @ LF # file_of [''tool-result'']"

text \<open>Two revisions of the message \<open>m7\<close> with the same timestamp: the first says
  \<open>one\<close> and reports one output token, the second says \<open>one two\<close> and reports two.\<close>

definition file_tie :: string where
  "file_tie = file_of [''tie-first'', ''tie-second'']"

text \<open>The four fields of a \<open>SessionInfo\<close> that say which session it is.\<close>

definition identity :: "SessionInfo \<Rightarrow> string \<times> bool \<times> string \<times> string" where
  "identity info = (i_ID info, i_IsAgent info, i_ProjectDir info, i_ProjectName info)"


text \<open>The invariant of the index: a stored session has events and is stored under
  its own ID.\<close>

definition index_ok :: "Store \<Rightarrow> bool" where
  "index_ok s =
     (\<forall>k sess. sessions s k = Some sess \<longrightarrow> s_Events sess \<noteq> [] \<and> i_ID (s_Info sess) = k)"

text \<open>A projects directory with one project and two session files in it: the
  worked example, and a file whose parse yields no event.\<close>

definition path_empty :: string where
  "path_empty = ''/home/u/.claude/projects/-home-u-proj/s2.jsonl''"

definition fs_sample :: fs where
  "fs_sample =
     \<lparr> fs_Open = [sample_path \<mapsto> file_example, path_empty \<mapsto> file_noid],
       fs_ReadDir =
         [''/home/u/.claude/projects'' \<mapsto> [\<lparr> d_Name = ''-home-u-proj'', d_IsDir = True \<rparr>],
          ''/home/u/.claude/projects/-home-u-proj'' \<mapsto>
            [\<lparr> d_Name = ''s1.jsonl'', d_IsDir = False \<rparr>,
             \<lparr> d_Name = ''s2.jsonl'', d_IsDir = False \<rparr>]] \<rparr>"

text \<open>The store after a scan of that directory.\<close>

definition store_scanned :: Store where
  "store_scanned =
     (NewStore ''/home/u'')\<lparr> sessions :=
        [''s1'' \<mapsto> finish (parse_file sample_lib sample_path file_example) [] [] []] \<rparr>"
section \<open>Properties\<close>

subsection \<open>The first loop\<close>

lemma decoded_Nil [simp]: "decoded lib [] = []"
  by (simp add: decoded_def)

lemma decoded_Cons:
  "decoded lib (l # ls) =
     (if l = [] then [] else case json_Unmarshal lib l of None \<Rightarrow> [] | Some e \<Rightarrow> [e])
     @ decoded lib ls"
  by (simp add: decoded_def)

lemma decoded_append: "decoded lib (xs @ ys) = decoded lib xs @ decoded lib ys"
  by (simp add: decoded_def)

lemma read_line_allEntries:
  "allEntries (read_line lib l st) = allEntries st @ decoded lib [l]"
  by (simp add: read_line_def decoded_Cons split: option.splits)

lemma read_line_assistantMessages:
  "assistantMessages (read_line lib l st) =
     fold (resolve lib) (decoded lib [l]) (assistantMessages st)"
  by (simp add: read_line_def decoded_Cons split: option.splits)

lemma read_line_rest:
  "sess_Events (read_line lib l st) = sess_Events st"
  "seenMessageIDs (read_line lib l st) = seenMessageIDs st"
  "filesRead (read_line lib l st) = filesRead st"
  "filesWritten (read_line lib l st) = filesWritten st"
  "filesCreated (read_line lib l st) = filesCreated st"
  by (simp_all add: read_line_def split: option.splits)

lemma fold_read_line_allEntries:
  "allEntries (fold (read_line lib) ls st) = allEntries st @ decoded lib ls"
  by (induction ls arbitrary: st) (simp_all add: read_line_allEntries decoded_Cons[of _ _ "_ # _"] decoded_def)

lemma fold_read_line_assistantMessages:
  "assistantMessages (fold (read_line lib) ls st) =
     fold (resolve lib) (decoded lib ls) (assistantMessages st)"
proof (induction ls arbitrary: st)
  case Nil
  show ?case by simp
next
  case (Cons l ls)
  have "decoded lib (l # ls) = decoded lib [l] @ decoded lib ls"
    by (simp add: decoded_def)
  then show ?case
    by (simp add: Cons.IH read_line_assistantMessages)
qed

lemma fold_read_line_rest:
  "sess_Events (fold (read_line lib) ls st) = sess_Events st"
  "seenMessageIDs (fold (read_line lib) ls st) = seenMessageIDs st"
  "filesRead (fold (read_line lib) ls st) = filesRead st"
  "filesWritten (fold (read_line lib) ls st) = filesWritten st"
  "filesCreated (fold (read_line lib) ls st) = filesCreated st"
  by (induction ls arbitrary: st) (simp_all add: read_line_rest)

lemma init_state_simps:
  "sess_Events (init_state path) = []"
  "assistantMessages (init_state path) = Map.empty"
  "allEntries (init_state path) = []"
  "filesRead (init_state path) = {}"
  "filesWritten (init_state path) = {}"
  "filesCreated (init_state path) = {}"
  "seenMessageIDs (init_state path) = {}"
  by (simp_all add: init_state_def Let_def)

lemma read_all_allEntries:
  "allEntries (read_all lib path content) = decoded lib (scanner_lines maxLine content)"
  by (simp add: read_all_def fold_read_line_allEntries init_state_simps)

lemma authoritative_eq:
  "authoritative lib path content =
     fold (resolve lib) (decoded lib (scanner_lines maxLine content)) Map.empty"
  by (simp add: authoritative_def read_all_def fold_read_line_assistantMessages init_state_simps)

lemma read_all_rest:
  "sess_Events (read_all lib path content) = []"
  "seenMessageIDs (read_all lib path content) = {}"
  "filesRead (read_all lib path content) = {}"
  "filesWritten (read_all lib path content) = {}"
  "filesCreated (read_all lib path content) = {}"
  by (simp_all add: read_all_def fold_read_line_rest init_state_simps)

lemma raw_lines_line: "LF \<notin> set l \<Longrightarrow> raw_lines (l @ LF # rest) = l # raw_lines rest"
  by (induction l) auto

lemma raw_lines_file_of:
  "\<forall>l\<in>set ls. LF \<notin> set l \<Longrightarrow> raw_lines (file_of ls) = ls"
  by (induction ls) (simp_all add: file_of_def raw_lines_line)

lemmas sample_records = r_user_hi_def r_asst_bash_def r_asst_partial_def r_tool_result_def
  r_tie_first_def r_tie_second_def r_asst_reads_def r_summary_def r_asst_noid_def
  zero_rawEntry_def zero_rawMessage_def

lemma sample_lines:
  "scanner_lines maxLine (file_of [''tie-first'', ''tie-second'']) = [''tie-first'', ''tie-second'']"
  by (simp add: scanner_lines_def raw_lines_file_of LF_def maxLine_def dropCR_def CR_def)

lemma resolve_cases:
  "resolve lib e am = am \<or>
   (\<exists>msg. e_Type e = ''assistant'' \<and> e_Message e = Some msg \<and> m_ID msg \<noteq> []
      \<and> resolve lib e am =
          am(m_ID msg \<mapsto> \<lparr> g_entry = e, g_timestamp = parseTimestamp lib (e_Timestamp e) \<rparr>))"
  by (auto simp add: resolve_def Let_def split: option.splits)

lemma resolve_dom:
  "dom (resolve lib e am) =
     dom am \<union> {mid. mid \<noteq> [] \<and> message_id e = Some mid}"
  by (auto simp add: resolve_def Let_def message_id_def split: option.splits if_splits)

lemma stored_ok_resolve:
  assumes "stored_ok lib E am"
  shows "stored_ok lib (insert e E) (resolve lib e am)"
proof -
  from resolve_cases [of lib e am] show ?thesis
  proof
    assume "resolve lib e am = am"
    with assms show ?thesis by (auto simp add: stored_ok_def)
  next
    assume "\<exists>msg. e_Type e = ''assistant'' \<and> e_Message e = Some msg \<and> m_ID msg \<noteq> []
      \<and> resolve lib e am =
          am(m_ID msg \<mapsto> \<lparr> g_entry = e, g_timestamp = parseTimestamp lib (e_Timestamp e) \<rparr>)"
    then obtain msg where m: "e_Type e = ''assistant''" "e_Message e = Some msg" "m_ID msg \<noteq> []"
      and r: "resolve lib e am =
          am(m_ID msg \<mapsto> \<lparr> g_entry = e, g_timestamp = parseTimestamp lib (e_Timestamp e) \<rparr>)"
      by blast
    from m have "message_id e = Some (m_ID msg)" by (simp add: message_id_def)
    with assms m show ?thesis
      unfolding r stored_ok_def by auto
  qed
qed

lemma stored_ok_fold:
  "stored_ok lib E am \<Longrightarrow> stored_ok lib (E \<union> set es) (fold (resolve lib) es am)"
proof (induction es arbitrary: E am)
  case Nil
  then show ?case by simp
next
  case (Cons e es)
  from Cons.prems have "stored_ok lib (insert e E) (resolve lib e am)"
    by (rule stored_ok_resolve)
  then have "stored_ok lib (insert e E \<union> set es) (fold (resolve lib) es (resolve lib e am))"
    by (rule Cons.IH)
  then show ?case by simp
qed

lemma fold_resolve_dom:
  "dom (fold (resolve lib) es am) =
     dom am \<union> {mid. mid \<noteq> [] \<and> (\<exists>e\<in>set es. message_id e = Some mid)}"
proof (induction es arbitrary: am)
  case Nil
  show ?case by simp
next
  case (Cons e es)
  have "dom (fold (resolve lib) (e # es) am)
      = dom (resolve lib e am) \<union> {mid. mid \<noteq> [] \<and> (\<exists>e\<in>set es. message_id e = Some mid)}"
    by (simp add: Cons.IH)
  also have "\<dots> = dom am \<union> {mid. mid \<noteq> [] \<and> message_id e = Some mid}
       \<union> {mid. mid \<noteq> [] \<and> (\<exists>e\<in>set es. message_id e = Some mid)}"
    by (simp only: resolve_dom)
  also have "\<dots> = dom am \<union> {mid. mid \<noteq> [] \<and> (\<exists>x\<in>set (e # es). message_id x = Some mid)}"
    by auto
  finally show ?case .
qed

lemma authoritative_stored:
  assumes "authoritative lib path content mid = Some g"
  shows "g_entry g \<in> set (allEntries (read_all lib path content))"
    and "message_id (g_entry g) = Some mid"
    and "mid \<noteq> []"
    and "g_timestamp g = parseTimestamp lib (e_Timestamp (g_entry g))"
proof -
  let ?es = "decoded lib (scanner_lines maxLine content)"
  have "stored_ok lib {} Map.empty" by (simp add: stored_ok_def)
  then have "stored_ok lib ({} \<union> set ?es) (fold (resolve lib) ?es Map.empty)"
    by (rule stored_ok_fold)
  then have ok: "stored_ok lib (set ?es) (authoritative lib path content)"
    by (simp add: authoritative_eq)
  from ok assms show "g_entry g \<in> set (allEntries (read_all lib path content))"
    by (simp add: stored_ok_def read_all_allEntries)
  from ok assms show "message_id (g_entry g) = Some mid"
    by (simp add: stored_ok_def)
  from ok assms show "mid \<noteq> []"
    by (auto simp add: stored_ok_def)
  from ok assms show "g_timestamp g = parseTimestamp lib (e_Timestamp (g_entry g))"
    by (simp add: stored_ok_def)
qed

lemma authoritative_dom:
  "dom (authoritative lib path content) =
     {mid. mid \<noteq> [] \<and>
        (\<exists>e\<in>set (allEntries (read_all lib path content)). message_id e = Some mid)}"
  by (simp add: authoritative_eq fold_resolve_dom read_all_allEntries)

lemma resolved_has_message:
  assumes "authoritative lib path content mid = Some g"
  shows "\<exists>msg. e_Message (g_entry g) = Some msg \<and> m_ID msg = mid"
proof -
  from assms have "message_id (g_entry g) = Some mid"
    by (rule authoritative_stored)
  then show ?thesis
    by (auto simp add: message_id_def split: if_splits)
qed

text \<open>
  Claim C2 (revision tie-break). Among the raw assistant records sharing one message
  identifier the record with the strictly greatest timestamp is to be retained, and of
  two records with equal timestamps the one occurring later in the file. The first loop
  replaces the stored record only when \<open>ts.After(existing.timestamp)\<close>, so on equal
  timestamps it keeps the earlier record, although the comment above the map says that
  only the last (most complete) version is kept. The theorem runs the first loop on a
  file of two records with the message id \<open>m7\<close> and the same timestamp: the record
  retained for \<open>m7\<close> is the first one.
\<close>

theorem tie_keeps_earlier_record:
  "parseTimestamp sample_lib (e_Timestamp r_tie_first)
     = parseTimestamp sample_lib (e_Timestamp r_tie_second)
   \<and> message_id r_tie_first = Some ''m7'' \<and> message_id r_tie_second = Some ''m7''
   \<and> r_tie_first \<noteq> r_tie_second
   \<and> allEntries (read_all sample_lib sample_path (file_of [''tie-first'', ''tie-second'']))
       = [r_tie_first, r_tie_second]
   \<and> map_option g_entry
        (authoritative sample_lib sample_path (file_of [''tie-first'', ''tie-second'']) ''m7'')
       = Some r_tie_first"
  by (simp add: read_all_allEntries authoritative_eq sample_lines decoded_def sample_lib_def
      sample_Unmarshal_def resolve_def parseTimestamp_def sample_time_Parse_def After_def
      message_id_def sample_records)


subsection \<open>The second loop\<close>

lemma fold_track_tool_keeps:
  "sess_Events (fold track_tool evs st) = sess_Events st"
  "seenMessageIDs (fold track_tool evs st) = seenMessageIDs st"
  "assistantMessages (fold track_tool evs st) = assistantMessages st"
  "allEntries (fold track_tool evs st) = allEntries st"
  by (induction evs arbitrary: st)
     (simp_all add: track_tool_def Let_def split: option.splits)

lemma fold_track_tool_info:
  "i_InputTokens (sess_Info (fold track_tool evs st)) = i_InputTokens (sess_Info st)"
  "i_OutputTokens (sess_Info (fold track_tool evs st)) = i_OutputTokens (sess_Info st)"
  "i_CacheReadTokens (sess_Info (fold track_tool evs st)) = i_CacheReadTokens (sess_Info st)"
  "i_CacheWriteTokens (sess_Info (fold track_tool evs st)) = i_CacheWriteTokens (sess_Info st)"
  "i_StartTime (sess_Info (fold track_tool evs st)) = i_StartTime (sess_Info st)"
  "i_LastUpdate (sess_Info (fold track_tool evs st)) = i_LastUpdate (sess_Info st)"
  by (induction evs arbitrary: st)
     (simp_all add: track_tool_def Let_def split: option.splits)

lemma fold_count_user_info:
  "i_InputTokens (fold count_user evs info) = i_InputTokens info"
  "i_OutputTokens (fold count_user evs info) = i_OutputTokens info"
  "i_CacheReadTokens (fold count_user evs info) = i_CacheReadTokens info"
  "i_CacheWriteTokens (fold count_user evs info) = i_CacheWriteTokens info"
  "i_StartTime (fold count_user evs info) = i_StartTime info"
  "i_LastUpdate (fold count_user evs info) = i_LastUpdate info"
  by (induction evs arbitrary: info) (simp_all add: count_user_def Let_def)

lemma bump_times_tokens:
  "i_InputTokens (bump_times ts info) = i_InputTokens info"
  "i_OutputTokens (bump_times ts info) = i_OutputTokens info"
  "i_CacheReadTokens (bump_times ts info) = i_CacheReadTokens info"
  "i_CacheWriteTokens (bump_times ts info) = i_CacheWriteTokens info"
  by (simp_all add: bump_times_def Let_def)

lemma emit_fields:
  "sess_Events (emit lib mid final ts st) =
     sess_Events st @ parseAssistantMessage lib (g_entry final) ts"
  "seenMessageIDs (emit lib mid final ts st) = insert mid (seenMessageIDs st)"
  "assistantMessages (emit lib mid final ts st) = assistantMessages st"
  "allEntries (emit lib mid final ts st) = allEntries st"
  by (simp_all add: emit_def Let_def fold_track_tool_keeps)

lemma add_usage_tokens:
  "i_InputTokens (add_usage u info) = i_InputTokens info + usage_in u"
  "i_OutputTokens (add_usage u info) = i_OutputTokens info + usage_out u"
  "i_CacheReadTokens (add_usage u info) = i_CacheReadTokens info + usage_cache_read u"
  "i_CacheWriteTokens (add_usage u info) = i_CacheWriteTokens info + usage_cache_write u"
  by (simp_all add: add_usage_def usage_in_def usage_out_def usage_cache_read_def
      usage_cache_write_def split: option.splits)

lemma add_usage_times:
  "i_StartTime (add_usage u info) = i_StartTime info"
  "i_LastUpdate (add_usage u info) = i_LastUpdate info"
  by (simp_all add: add_usage_def split: option.splits)

lemma emit_tokens:
  "i_InputTokens (sess_Info (emit lib mid final ts st)) =
     i_InputTokens (sess_Info st) + usage_in (final_usage final)"
  "i_OutputTokens (sess_Info (emit lib mid final ts st)) =
     i_OutputTokens (sess_Info st) + usage_out (final_usage final)"
  "i_CacheReadTokens (sess_Info (emit lib mid final ts st)) =
     i_CacheReadTokens (sess_Info st) + usage_cache_read (final_usage final)"
  "i_CacheWriteTokens (sess_Info (emit lib mid final ts st)) =
     i_CacheWriteTokens (sess_Info st) + usage_cache_write (final_usage final)"
  by (simp_all add: emit_def Let_def add_usage_tokens fold_track_tool_info)

lemma emit_times:
  "i_StartTime (sess_Info (emit lib mid final ts st)) = i_StartTime (sess_Info st)"
  "i_LastUpdate (sess_Info (emit lib mid final ts st)) = i_LastUpdate (sess_Info st)"
  by (simp_all add: emit_def Let_def add_usage_times fold_track_tool_info)

lemma timeline_step_events:
  "sess_Events (timeline_step lib e st) = sess_Events st @ appended lib e st"
  by (simp add: timeline_step_def appended_def Let_def emit_fields emits_def
      split: option.splits)

lemma step_events_appended: "step_events lib e st = appended lib e st"
  by (simp add: step_events_def timeline_step_events)

lemma timeline_step_keeps:
  "assistantMessages (timeline_step lib e st) = assistantMessages st"
  "allEntries (timeline_step lib e st) = allEntries st"
  by (simp_all add: timeline_step_def Let_def emit_fields split: option.splits)

lemma emits_info [simp]: "emits (st\<lparr> sess_Info := i \<rparr>) e = emits st e"
  by (simp add: emits_def cong: option.case_cong)

lemma emits_Some:
  "emits st e \<Longrightarrow> \<exists>msg final. e_Message e = Some msg \<and> m_ID msg \<noteq> []
     \<and> m_ID msg \<notin> seenMessageIDs st \<and> assistantMessages st (m_ID msg) = Some final
     \<and> e_UUID e = e_UUID (g_entry final)"
  by (auto simp add: emits_def split: option.splits)

lemma timeline_step_emit:
  assumes "e_Type e = ''assistant''" "emits st e" "e_Message e = Some msg"
    "assistantMessages st (m_ID msg) = Some final"
  shows "timeline_step lib e st =
     emit lib (m_ID msg) final (parseTimestamp lib (e_Timestamp e))
       (st\<lparr> sess_Info := bump_times (parseTimestamp lib (e_Timestamp e)) (sess_Info st) \<rparr>)"
  using assms by (simp add: timeline_step_def Let_def)

lemma timeline_step_quiet:
  assumes "\<not> (e_Type e = ''assistant'' \<and> emits st e)"
  shows "seenMessageIDs (timeline_step lib e st) = seenMessageIDs st"
  using assms by (auto simp add: timeline_step_def Let_def)

lemma timeline_step_seen:
  "seenMessageIDs (timeline_step lib e st) = seenMessageIDs st \<union> set (step_ids lib e st)"
proof (cases "e_Type e = ''assistant'' \<and> emits st e")
  case True
  then obtain msg final where m: "e_Message e = Some msg"
      and f: "assistantMessages st (m_ID msg) = Some final"
    using emits_Some by blast
  from True m f have "timeline_step lib e st =
     emit lib (m_ID msg) final (parseTimestamp lib (e_Timestamp e))
       (st\<lparr> sess_Info := bump_times (parseTimestamp lib (e_Timestamp e)) (sess_Info st) \<rparr>)"
    by (simp add: timeline_step_emit)
  then have "seenMessageIDs (timeline_step lib e st) = insert (m_ID msg) (seenMessageIDs st)"
    by (simp add: emit_fields)
  moreover from True m have "step_ids lib e st = [m_ID msg]"
    by (simp add: step_ids_def)
  ultimately show ?thesis by simp
next
  case False
  then have "seenMessageIDs (timeline_step lib e st) = seenMessageIDs st"
    by (rule timeline_step_quiet)
  moreover from False have "step_ids lib e st = []"
    by (auto simp add: step_ids_def)
  ultimately show ?thesis by simp
qed

lemma user_block_ts: "x \<in> set (user_block lib e ts b) \<Longrightarrow> ev_Timestamp x = ts"
  by (cases b) (auto simp add: user_block_def Let_def split: if_splits)

lemma assistant_block_ts:
  "x \<in> set (assistant_block lib e ts it ot b) \<Longrightarrow> ev_Timestamp x = ts"
  by (cases b) (auto simp add: assistant_block_def Let_def split: if_splits)

lemma parseUserMessage_ts:
  "x \<in> set (parseUserMessage lib e ts) \<Longrightarrow> ev_Timestamp x = ts"
proof (cases "e_Message e")
  case None
  assume "x \<in> set (parseUserMessage lib e ts)"
  with None show ?thesis by (simp add: parseUserMessage_def)
next
  case (Some msg)
  assume "x \<in> set (parseUserMessage lib e ts)"
  with Some show ?thesis
    by (cases "m_Content msg")
       (auto simp add: parseUserMessage_def user_block_ts split: if_splits)
qed

lemma parseAssistantMessage_ts:
  "x \<in> set (parseAssistantMessage lib e ts) \<Longrightarrow> ev_Timestamp x = ts"
proof (cases "e_Message e")
  case None
  assume "x \<in> set (parseAssistantMessage lib e ts)"
  with None show ?thesis by (simp add: parseAssistantMessage_def)
next
  case (Some msg)
  assume "x \<in> set (parseAssistantMessage lib e ts)"
  with Some show ?thesis
    by (cases "m_Content msg")
       (auto simp add: parseAssistantMessage_def Let_def assistant_block_ts)
qed

lemma appended_ts:
  "x \<in> set (appended lib e st) \<Longrightarrow> ev_Timestamp x = parseTimestamp lib (e_Timestamp e)"
  by (auto simp add: appended_def Let_def parseUserMessage_ts parseAssistantMessage_ts
      split: option.splits if_splits)

lemma timeline_Nil [simp]: "timeline lib [] st = st"
  by (simp add: timeline_def)

lemma timeline_Cons [simp]:
  "timeline lib (e # es) st = timeline lib es (timeline_step lib e st)"
  by (simp add: timeline_def)

lemma timeline_append: "timeline lib (xs @ ys) st = timeline lib ys (timeline lib xs st)"
  by (simp add: timeline_def)

lemma timeline_keeps:
  "assistantMessages (timeline lib es st) = assistantMessages st"
  "allEntries (timeline lib es st) = allEntries st"
  by (induction es arbitrary: st) (simp_all add: timeline_step_keeps)

lemma timeline_events:
  "sess_Events (timeline lib es st) = sess_Events st @ concat (blocks lib es st)"
  by (induction es arbitrary: st)
     (simp_all add: timeline_step_events step_events_appended)

lemma length_blocks [simp]: "length (blocks lib es st) = length es"
  by (induction es arbitrary: st) simp_all

lemma blocks_nth:
  "i < length es \<Longrightarrow>
   blocks lib es st ! i = appended lib (es ! i) (timeline lib (take i es) st)"
proof (induction es arbitrary: st i)
  case Nil
  then show ?case by simp
next
  case (Cons e es)
  show ?case
  proof (cases i)
    case 0
    then show ?thesis by (simp add: step_events_appended)
  next
    case (Suc j)
    with Cons.prems have "j < length es" by simp
    with Suc show ?thesis by (simp add: Cons.IH)
  qed
qed

lemma emit_ids_append:
  "emit_ids lib (xs @ ys) st = emit_ids lib xs st @ emit_ids lib ys (timeline lib xs st)"
  by (induction xs arbitrary: st) simp_all

lemma timeline_seen:
  "seenMessageIDs (timeline lib es st) = seenMessageIDs st \<union> set (emit_ids lib es st)"
proof (induction es arbitrary: st)
  case Nil
  show ?case by simp
next
  case (Cons e es)
  have "seenMessageIDs (timeline lib (e # es) st)
          = seenMessageIDs (timeline_step lib e st) \<union> set (emit_ids lib es (timeline_step lib e st))"
    by (simp add: Cons.IH)
  also have "\<dots> = seenMessageIDs st \<union> set (step_ids lib e st)
                     \<union> set (emit_ids lib es (timeline_step lib e st))"
    by (simp only: timeline_step_seen)
  also have "\<dots> = seenMessageIDs st \<union> set (emit_ids lib (e # es) st)"
    by (simp add: Un_assoc)
  finally show ?case .
qed

lemma emit_ids_fresh: "mid \<in> set (emit_ids lib es st) \<Longrightarrow> mid \<notin> seenMessageIDs st"
proof (induction es arbitrary: st)
  case Nil
  then show ?case by simp
next
  case (Cons e es)
  from Cons.prems have "mid \<in> set (step_ids lib e st @ emit_ids lib es (timeline_step lib e st))"
    by simp
  then consider
      (here) "mid \<in> set (step_ids lib e st)"
    | (later) "mid \<in> set (emit_ids lib es (timeline_step lib e st))"
    by auto
  then show ?case
  proof cases
    case here
    then have c: "e_Type e = ''assistant'' \<and> emits st e"
      by (cases "e_Type e = ''assistant'' \<and> emits st e") (simp_all add: step_ids_def)
    then obtain msg where m: "e_Message e = Some msg" "m_ID msg \<notin> seenMessageIDs st"
      using emits_Some by blast
    from c m have "step_ids lib e st = [m_ID msg]"
      by (simp add: step_ids_def)
    with here m show ?thesis
      by simp
  next
    case later
    then have "mid \<notin> seenMessageIDs (timeline_step lib e st)"
      by (rule Cons.IH)
    then show ?thesis
      by (simp add: timeline_step_seen)
  qed
qed

lemma distinct_emit_ids: "distinct (emit_ids lib es st)"
proof (induction es arbitrary: st)
  case Nil
  show ?case by simp
next
  case (Cons e es)
  have d: "distinct (emit_ids lib es (timeline_step lib e st))"
    by (rule Cons.IH)
  have "\<And>mid. mid \<in> set (step_ids lib e st) \<Longrightarrow>
          mid \<notin> set (emit_ids lib es (timeline_step lib e st))"
  proof
    fix mid
    assume a: "mid \<in> set (step_ids lib e st)"
      and b: "mid \<in> set (emit_ids lib es (timeline_step lib e st))"
    from b have "mid \<notin> seenMessageIDs (timeline_step lib e st)"
      by (rule emit_ids_fresh)
    with a show False
      by (simp only: timeline_step_seen) blast
  qed
  moreover have "distinct (step_ids lib e st)"
    by (simp add: step_ids_def split: option.splits)
  ultimately have "distinct (step_ids lib e st @ emit_ids lib es (timeline_step lib e st))"
    using d by auto
  then show ?case
    by simp
qed

lemma count_list_distinct:
  "distinct xs \<Longrightarrow> x \<in> set xs \<Longrightarrow> count_list xs x = 1"
  by (induction xs) auto

lemma step_ids_emit:
  assumes "assistantMessages st mid = Some g" "message_id e = Some mid" "mid \<noteq> []"
    "mid \<notin> seenMessageIDs st" "e_UUID e = e_UUID (g_entry g)"
  shows "step_ids lib e st = [mid]"
proof -
  from assms(2) obtain msg where m: "e_Type e = ''assistant''" "e_Message e = Some msg"
      "m_ID msg = mid"
    by (auto simp add: message_id_def split: if_splits)
  with assms have "emits st e"
    by (simp add: emits_def)
  with m show ?thesis
    by (simp add: step_ids_def)
qed

lemma step_ids_stored:
  "mid \<in> set (step_ids lib e st) \<Longrightarrow> mid \<in> dom (assistantMessages st)"
proof -
  assume a: "mid \<in> set (step_ids lib e st)"
  then have c: "e_Type e = ''assistant'' \<and> emits st e"
    by (cases "e_Type e = ''assistant'' \<and> emits st e") (simp_all add: step_ids_def)
  then obtain msg final where m: "e_Message e = Some msg"
      "assistantMessages st (m_ID msg) = Some final"
    using emits_Some by blast
  with c have "step_ids lib e st = [m_ID msg]"
    by (simp add: step_ids_def)
  with a m show ?thesis by auto
qed

lemma emit_ids_stored:
  "mid \<in> set (emit_ids lib es st) \<Longrightarrow> mid \<in> dom (assistantMessages st)"
proof (induction es arbitrary: st)
  case Nil
  then show ?case by simp
next
  case (Cons e es)
  from Cons.prems consider
      (here) "mid \<in> set (step_ids lib e st)"
    | (later) "mid \<in> set (emit_ids lib es (timeline_step lib e st))"
    by auto
  then show ?case
  proof cases
    case here
    then show ?thesis by (rule step_ids_stored)
  next
    case later
    then have "mid \<in> dom (assistantMessages (timeline_step lib e st))"
      by (rule Cons.IH)
    then show ?thesis by (simp add: timeline_step_keeps)
  qed
qed

lemma emit_complete:
  assumes "assistantMessages st mid = Some g" "g_entry g \<in> set es"
    "message_id (g_entry g) = Some mid" "mid \<noteq> []" "mid \<notin> seenMessageIDs st"
  shows "mid \<in> set (emit_ids lib es st)"
  using assms
proof (induction es arbitrary: st)
  case Nil
  then show ?case by simp
next
  case (Cons e es)
  show ?case
  proof (cases "mid \<in> set (step_ids lib e st)")
    case True
    then show ?thesis by simp
  next
    case False
    have "e \<noteq> g_entry g"
    proof
      assume "e = g_entry g"
      with Cons.prems have "step_ids lib e st = [mid]"
        by (simp add: step_ids_emit)
      with False show False by simp
    qed
    with Cons.prems have in_rest: "g_entry g \<in> set es" by auto
    from False Cons.prems have "mid \<notin> seenMessageIDs (timeline_step lib e st)"
      by (simp add: timeline_step_seen)
    moreover from Cons.prems have "assistantMessages (timeline_step lib e st) mid = Some g"
      by (simp add: timeline_step_keeps)
    ultimately have "mid \<in> set (emit_ids lib es (timeline_step lib e st))"
      using in_rest Cons.prems by (intro Cons.IH) simp_all
    then show ?thesis by simp
  qed
qed

lemma file_emit_ids_set:
  "set (file_emit_ids lib path content) = dom (authoritative lib path content)"
proof
  show "set (file_emit_ids lib path content) \<subseteq> dom (authoritative lib path content)"
    using emit_ids_stored
    by (fastforce simp add: file_emit_ids_def Let_def authoritative_def)
next
  show "dom (authoritative lib path content) \<subseteq> set (file_emit_ids lib path content)"
  proof
    fix mid
    assume "mid \<in> dom (authoritative lib path content)"
    then obtain g where g: "authoritative lib path content mid = Some g"
      by auto
    let ?st = "read_all lib path content"
    from g have "assistantMessages ?st mid = Some g"
      by (simp add: authoritative_def)
    moreover from g have "g_entry g \<in> set (allEntries ?st)"
      by (rule authoritative_stored)
    moreover from g have "message_id (g_entry g) = Some mid"
      by (rule authoritative_stored)
    moreover from g have "mid \<noteq> []"
      by (rule authoritative_stored)
    moreover have "mid \<notin> seenMessageIDs ?st"
      by (simp add: read_all_rest)
    ultimately have "mid \<in> set (emit_ids lib (allEntries ?st) ?st)"
      by (rule emit_complete)
    then show "mid \<in> set (file_emit_ids lib path content)"
      by (simp add: file_emit_ids_def Let_def)
  qed
qed

lemma distinct_file_emit_ids: "distinct (file_emit_ids lib path content)"
  by (simp add: file_emit_ids_def Let_def distinct_emit_ids)


subsection \<open>From the loops to the returned session\<close>

lemma emit_ids_by_index:
  "emit_ids lib es st =
     concat (map (\<lambda>i. step_ids lib (es ! i) (timeline lib (take i es) st)) [0..<length es])"
proof (induction es arbitrary: st)
  case Nil
  show ?case by simp
next
  case (Cons e es)
  have "[0..<length (e # es)] = 0 # map Suc [0..<length es]"
    by (simp add: upt_conv_Cons map_Suc_upt del: upt_Suc)
  then show ?case
    by (simp add: Cons.IH comp_def del: upt_Suc)
qed

lemma finish_simps:
  "s_Events (finish st rd wr cr) = sess_Events st"
  "i_FilesRead (s_Info (finish st rd wr cr)) = rd"
  "i_FilesWritten (s_Info (finish st rd wr cr)) = wr"
  "i_FilesCreated (s_Info (finish st rd wr cr)) = cr"
  "i_InputTokens (s_Info (finish st rd wr cr)) = i_InputTokens (sess_Info st)"
  "i_OutputTokens (s_Info (finish st rd wr cr)) = i_OutputTokens (sess_Info st)"
  "i_CacheReadTokens (s_Info (finish st rd wr cr)) = i_CacheReadTokens (sess_Info st)"
  "i_CacheWriteTokens (s_Info (finish st rd wr cr)) = i_CacheWriteTokens (sess_Info st)"
  "i_StartTime (s_Info (finish st rd wr cr)) = i_StartTime (sess_Info st)"
  "i_LastUpdate (s_Info (finish st rd wr cr)) = i_LastUpdate (sess_Info st)"
  "i_ID (s_Info (finish st rd wr cr)) = i_ID (sess_Info st)"
  "i_ProjectDir (s_Info (finish st rd wr cr)) = i_ProjectDir (sess_Info st)"
  "i_ProjectName (s_Info (finish st rd wr cr)) = i_ProjectName (sess_Info st)"
  "i_IsAgent (s_Info (finish st rd wr cr)) = i_IsAgent (sess_Info st)"
  by (simp_all add: finish_def Let_def)

lemma ParseSessionFile_Inr:
  assumes "ParseSessionFile lib fs path (Inr sess)" "fs_Open fs path = Some content"
  shows "sess = finish (parse_file lib path content) (i_FilesRead (s_Info sess))
           (i_FilesWritten (s_Info sess)) (i_FilesCreated (s_Info sess))"
    and "range_order (filesRead (parse_file lib path content)) (i_FilesRead (s_Info sess))"
    and "range_order (filesWritten (parse_file lib path content)) (i_FilesWritten (s_Info sess))"
    and "range_order (filesCreated (parse_file lib path content)) (i_FilesCreated (s_Info sess))"
  using assms by (simp_all add: ParseSessionFile_def Let_def)

lemma ParseSessionFile_opened:
  "ParseSessionFile lib fs path (Inr sess) \<Longrightarrow> \<exists>content. fs_Open fs path = Some content"
  by (cases "fs_Open fs path") (simp_all add: ParseSessionFile_def)

lemma ParseSessionFile_finish:
  assumes "fs_Open fs path = Some content"
    "range_order (filesRead (parse_file lib path content)) rd"
    "range_order (filesWritten (parse_file lib path content)) wr"
    "range_order (filesCreated (parse_file lib path content)) cr"
  shows "ParseSessionFile lib fs path (Inr (finish (parse_file lib path content) rd wr cr))"
  using assms by (simp add: ParseSessionFile_def Let_def finish_simps)

lemma parse_file_timeline:
  "parse_file lib path content =
     timeline lib (file_entries lib path content) (read_all lib path content)"
  by (simp add: parse_file_def Let_def timeline_def file_entries_def)

lemma parse_file_events:
  "sess_Events (parse_file lib path content) = concat (file_blocks lib path content)"
  by (simp add: parse_file_timeline timeline_events read_all_rest file_blocks_def
      file_entries_def Let_def)

lemma session_events:
  assumes "ParseSessionFile lib fs path (Inr sess)" "fs_Open fs path = Some content"
  shows "s_Events sess = concat (file_blocks lib path content)"
proof -
  from assms have "sess = finish (parse_file lib path content) (i_FilesRead (s_Info sess))
           (i_FilesWritten (s_Info sess)) (i_FilesCreated (s_Info sess))"
    by (rule ParseSessionFile_Inr)
  then have "s_Events sess = sess_Events (parse_file lib path content)"
    by (metis finish_simps(1))
  then show ?thesis by (simp add: parse_file_events)
qed

lemma state_at_timeline:
  "state_at lib path content i =
     timeline lib (take i (file_entries lib path content)) (read_all lib path content)"
  by (simp add: state_at_def Let_def file_entries_def)

lemma state_at_stored:
  "assistantMessages (state_at lib path content i) = authoritative lib path content"
  by (simp add: state_at_timeline timeline_keeps authoritative_def)

lemma file_blocks_nth:
  "i < length (file_entries lib path content) \<Longrightarrow>
   file_blocks lib path content ! i =
     appended lib (file_entries lib path content ! i) (state_at lib path content i)"
  by (simp add: file_blocks_def Let_def state_at_timeline blocks_nth file_entries_def)

lemma length_file_blocks:
  "length (file_blocks lib path content) = length (file_entries lib path content)"
  by (simp add: file_blocks_def Let_def file_entries_def)

lemma file_emit_ids_by_index:
  "file_emit_ids lib path content =
     concat (map (\<lambda>i. step_ids lib (file_entries lib path content ! i)
                         (state_at lib path content i))
               [0..<length (file_entries lib path content)])"
  by (simp add: file_emit_ids_def Let_def state_at_timeline file_entries_def
      emit_ids_by_index [symmetric])

lemma appended_assistant:
  assumes "message_id e = Some mid" "assistantMessages st mid = Some g"
  shows "appended lib e st =
     (if step_ids lib e st = [mid]
      then parseAssistantMessage lib (g_entry g) (parseTimestamp lib (e_Timestamp e))
      else [])"
proof -
  from assms(1) obtain msg where m: "e_Type e = ''assistant''" "e_Message e = Some msg"
      "m_ID msg = mid"
    by (auto simp add: message_id_def split: if_splits)
  show ?thesis
  proof (cases "emits st e")
    case True
    with m assms show ?thesis
      by (simp add: appended_def step_ids_def Let_def)
  next
    case False
    with m assms show ?thesis
      by (simp add: appended_def step_ids_def Let_def)
  qed
qed


subsection \<open>Token counters\<close>

lemma timeline_step_counter:
  fixes p :: "SessionInfo \<Rightarrow> 64 word" and q :: "rawUsage option \<Rightarrow> 64 word"
  assumes bump: "\<And>ts info. p (bump_times ts info) = p info"
    and cu: "\<And>evs info. p (fold count_user evs info) = p info"
    and em: "\<And>mid final ts st.
       p (sess_Info (emit lib mid final ts st)) = p (sess_Info st) + q (final_usage final)"
  shows "p (sess_Info (timeline_step lib e st)) = p (sess_Info st)
     + sum_list (map (\<lambda>mid. q (final_usage (the (assistantMessages st mid)))) (step_ids lib e st))"
proof (cases "e_Type e = ''assistant'' \<and> emits st e")
  case True
  then obtain msg final where m: "e_Message e = Some msg"
    and f: "assistantMessages st (m_ID msg) = Some final"
    using emits_Some by blast
  from True m f have s: "timeline_step lib e st =
     emit lib (m_ID msg) final (parseTimestamp lib (e_Timestamp e))
       (st\<lparr> sess_Info := bump_times (parseTimestamp lib (e_Timestamp e)) (sess_Info st) \<rparr>)"
    by (simp add: timeline_step_emit)
  from True m have i: "step_ids lib e st = [m_ID msg]"
    by (simp add: step_ids_def)
  show ?thesis
    by (simp add: s i f em bump)
next
  case False
  then have i: "step_ids lib e st = []"
    by (auto simp add: step_ids_def)
  from False have "p (sess_Info (timeline_step lib e st)) = p (sess_Info st)"
    by (auto simp add: timeline_step_def Let_def cu bump)
  with i show ?thesis by simp
qed

lemma timeline_counter:
  fixes p :: "SessionInfo \<Rightarrow> 64 word" and q :: "rawUsage option \<Rightarrow> 64 word"
  assumes bump: "\<And>ts info. p (bump_times ts info) = p info"
    and cu: "\<And>evs info. p (fold count_user evs info) = p info"
    and em: "\<And>mid final ts st.
       p (sess_Info (emit lib mid final ts st)) = p (sess_Info st) + q (final_usage final)"
  shows "p (sess_Info (timeline lib es st)) = p (sess_Info st)
     + sum_list (map (\<lambda>mid. q (final_usage (the (assistantMessages st mid)))) (emit_ids lib es st))"
proof (induction es arbitrary: st)
  case Nil
  show ?case by simp
next
  case (Cons e es)
  have "p (sess_Info (timeline lib (e # es) st))
      = p (sess_Info (timeline_step lib e st))
        + sum_list (map (\<lambda>mid. q (final_usage (the (assistantMessages st mid))))
            (emit_ids lib es (timeline_step lib e st)))"
    by (simp add: Cons.IH timeline_step_keeps)
  also have "\<dots> = p (sess_Info st)
        + sum_list (map (\<lambda>mid. q (final_usage (the (assistantMessages st mid)))) (step_ids lib e st))
        + sum_list (map (\<lambda>mid. q (final_usage (the (assistantMessages st mid))))
            (emit_ids lib es (timeline_step lib e st)))"
    by (simp only: timeline_step_counter [of p lib q, OF bump cu em])
  finally show ?case by (simp add: add.assoc)
qed

lemma first_loop_tokens:
  "i_InputTokens (sess_Info (read_all lib path content)) = 0"
  "i_OutputTokens (sess_Info (read_all lib path content)) = 0"
  "i_CacheReadTokens (sess_Info (read_all lib path content)) = 0"
  "i_CacheWriteTokens (sess_Info (read_all lib path content)) = 0"
proof -
  have keep: "i_InputTokens (sess_Info (fold (read_line lib) ls st)) = i_InputTokens (sess_Info st)
    \<and> i_OutputTokens (sess_Info (fold (read_line lib) ls st)) = i_OutputTokens (sess_Info st)
    \<and> i_CacheReadTokens (sess_Info (fold (read_line lib) ls st)) = i_CacheReadTokens (sess_Info st)
    \<and> i_CacheWriteTokens (sess_Info (fold (read_line lib) ls st)) = i_CacheWriteTokens (sess_Info st)"
    for ls st
    by (induction ls arbitrary: st)
       (simp_all add: read_line_def first_model_def first_cwd_def split: option.splits)
  have init: "i_InputTokens (sess_Info (init_state path)) = 0"
    "i_OutputTokens (sess_Info (init_state path)) = 0"
    "i_CacheReadTokens (sess_Info (init_state path)) = 0"
    "i_CacheWriteTokens (sess_Info (init_state path)) = 0"
    by (simp_all add: init_state_def Let_def zero_SessionInfo_def)
  show "i_InputTokens (sess_Info (read_all lib path content)) = 0"
    "i_OutputTokens (sess_Info (read_all lib path content)) = 0"
    "i_CacheReadTokens (sess_Info (read_all lib path content)) = 0"
    "i_CacheWriteTokens (sess_Info (read_all lib path content)) = 0"
    by (simp_all add: read_all_def keep init)
qed

lemma usage_sum:
  fixes q :: "rawUsage option \<Rightarrow> 64 word"
  assumes "q None = 0"
  shows "sum_list (map (\<lambda>mid. q (final_usage (the (authoritative lib path content mid))))
           (file_emit_ids lib path content))
       = (\<Sum>mid\<in>ids_with_usage lib path content.
            q (final_usage (the (authoritative lib path content mid))))"
proof -
  let ?f = "\<lambda>mid. q (final_usage (the (authoritative lib path content mid)))"
  have "sum_list (map ?f (file_emit_ids lib path content))
      = sum ?f (set (file_emit_ids lib path content))"
    by (rule sum_list_distinct_conv_sum_set) (rule distinct_file_emit_ids)
  also have "\<dots> = sum ?f (dom (authoritative lib path content))"
    by (simp only: file_emit_ids_set)
  also have "\<dots> = sum ?f (ids_with_usage lib path content)"
  proof (rule sum.mono_neutral_right)
    have "finite (set (file_emit_ids lib path content))" by simp
    then show "finite (dom (authoritative lib path content))"
      by (simp only: file_emit_ids_set)
    show "ids_with_usage lib path content \<subseteq> dom (authoritative lib path content)"
      by (auto simp add: ids_with_usage_def)
    show "\<forall>i\<in>dom (authoritative lib path content) - ids_with_usage lib path content. ?f i = 0"
      using assms by (auto simp add: ids_with_usage_def)
  qed
  finally show ?thesis .
qed

lemma parse_file_tokens:
  "i_InputTokens (sess_Info (parse_file lib path content)) =
     (\<Sum>mid\<in>ids_with_usage lib path content.
        usage_in (final_usage (the (authoritative lib path content mid))))"
  "i_OutputTokens (sess_Info (parse_file lib path content)) =
     (\<Sum>mid\<in>ids_with_usage lib path content.
        usage_out (final_usage (the (authoritative lib path content mid))))"
  "i_CacheReadTokens (sess_Info (parse_file lib path content)) =
     (\<Sum>mid\<in>ids_with_usage lib path content.
        usage_cache_read (final_usage (the (authoritative lib path content mid))))"
  "i_CacheWriteTokens (sess_Info (parse_file lib path content)) =
     (\<Sum>mid\<in>ids_with_usage lib path content.
        usage_cache_write (final_usage (the (authoritative lib path content mid))))"
proof -
  let ?st = "read_all lib path content"
  have ids: "emit_ids lib (file_entries lib path content) ?st = file_emit_ids lib path content"
    by (simp add: file_emit_ids_def Let_def file_entries_def)
  have am: "assistantMessages ?st = authoritative lib path content"
    by (simp add: authoritative_def)
  show "i_InputTokens (sess_Info (parse_file lib path content)) =
     (\<Sum>mid\<in>ids_with_usage lib path content.
        usage_in (final_usage (the (authoritative lib path content mid))))"
    unfolding parse_file_timeline
    by (subst timeline_counter [where q = usage_in])
       (simp_all add: bump_times_tokens fold_count_user_info emit_tokens ids am
          first_loop_tokens usage_sum usage_in_def)
  show "i_OutputTokens (sess_Info (parse_file lib path content)) =
     (\<Sum>mid\<in>ids_with_usage lib path content.
        usage_out (final_usage (the (authoritative lib path content mid))))"
    unfolding parse_file_timeline
    by (subst timeline_counter [where q = usage_out])
       (simp_all add: bump_times_tokens fold_count_user_info emit_tokens ids am
          first_loop_tokens usage_sum usage_out_def)
  show "i_CacheReadTokens (sess_Info (parse_file lib path content)) =
     (\<Sum>mid\<in>ids_with_usage lib path content.
        usage_cache_read (final_usage (the (authoritative lib path content mid))))"
    unfolding parse_file_timeline
    by (subst timeline_counter [where q = usage_cache_read])
       (simp_all add: bump_times_tokens fold_count_user_info emit_tokens ids am
          first_loop_tokens usage_sum usage_cache_read_def)
  show "i_CacheWriteTokens (sess_Info (parse_file lib path content)) =
     (\<Sum>mid\<in>ids_with_usage lib path content.
        usage_cache_write (final_usage (the (authoritative lib path content mid))))"
    unfolding parse_file_timeline
    by (subst timeline_counter [where q = usage_cache_write])
       (simp_all add: bump_times_tokens fold_count_user_info emit_tokens ids am
          first_loop_tokens usage_sum usage_cache_write_def)
qed


subsection \<open>Evaluating the sample files\<close>

lemma sample_lib_simps:
  "json_Unmarshal sample_lib = sample_Unmarshal"
  "json_Marshal sample_lib = (\<lambda>v. ''null'')"
  "time_Parse sample_lib = sample_time_Parse"
  "strings_TrimSpace sample_lib = sample_TrimSpace"
  by (simp_all add: sample_lib_def)

lemmas sample_eval = sample_lib_simps sample_Unmarshal_def sample_time_Parse_def sample_TrimSpace_def
  sample_records parseTimestamp_def resolve_def first_model_def first_cwd_def read_line_def
  timeline_step_def emits_def emit_def final_usage_def add_usage_def track_tool_def
  count_user_def bump_times_def IsZero_def After_def Before_def
  parseUserMessage_def user_block_def parseAssistantMessage_def assistant_block_def
  tool_result_output_def item_text_def lookup_def string_or_zero_def zero_Event_def
  message_id_def step_ids_def

lemma scanner_lines_file_of:
  assumes "\<forall>l\<in>set ls. LF \<notin> set l \<and> length l < maxLine \<and> (l = [] \<or> last l \<noteq> CR)"
  shows "scanner_lines maxLine (file_of ls) = ls"
proof -
  from assms have a: "raw_lines (file_of ls) = ls"
    by (simp add: raw_lines_file_of)
  from assms have b: "takeWhile (\<lambda>l. length l < maxLine) ls = ls"
    by (simp add: takeWhile_eq_all_conv)
  from assms have c: "map dropCR ls = ls"
    by (induction ls) (auto simp add: dropCR_def)
  show ?thesis by (simp only: scanner_lines_def a b c)
qed

lemma fs_with_Open [simp]: "fs_Open (fs_with path content) path = Some content"
  by (simp add: fs_with_def)

lemma revisions_lines:
  "scanner_lines maxLine file_revisions = [''asst-partial'', ''{trunc'', ''asst-bash'', ''asst-bash'']"
  unfolding file_revisions_def
  by (rule scanner_lines_file_of) (simp add: LF_def CR_def maxLine_def)

lemma revisions_entries:
  "file_entries sample_lib sample_path file_revisions = [r_asst_partial, r_asst_bash, r_asst_bash]"
  by (simp add: file_entries_def read_all_allEntries revisions_lines decoded_def
      sample_lib_simps sample_Unmarshal_def)

lemma revisions_stored:
  "authoritative sample_lib sample_path file_revisions =
     [''m1'' \<mapsto> \<lparr> g_entry = r_asst_bash, g_timestamp = 200 \<rparr>]"
  by (simp add: authoritative_eq revisions_lines decoded_def sample_eval)

lemma revisions_files:
  "filesRead (parse_file sample_lib sample_path file_revisions) = {}"
  "filesWritten (parse_file sample_lib sample_path file_revisions) = {}"
  "filesCreated (parse_file sample_lib sample_path file_revisions) = {}"
  by (simp_all add: parse_file_timeline revisions_entries read_all_rest
      authoritative_def [symmetric] revisions_stored
      timeline_step_def Let_def emits_def emit_def track_tool_def
      parseAssistantMessage_def assistant_block_def sample_records sample_lib_simps
      lookup_def string_or_zero_def zero_Event_def sample_TrimSpace_def)

lemma revisions_session:
  "ParseSessionFile sample_lib (fs_with sample_path file_revisions) sample_path
     (Inr (finish (parse_file sample_lib sample_path file_revisions) [] [] []))"
  by (rule ParseSessionFile_finish) (simp_all add: revisions_files range_order_def)


subsection \<open>Exactly-once emission and token accounting\<close>

text \<open>
  Every non-empty assistant message identifier of a file is emitted once, and what is
  emitted for it are the events of the record the first loop retained for it. The
  events of the returned session are the blocks appended record by record; the
  emission branch of the second loop runs for the identifier exactly once; and a record
  carrying the identifier appends the events of the retained record where that branch
  runs and nothing elsewhere.
\<close>

lemma retained_record_emitted_once:
  assumes "ParseSessionFile lib fs path (Inr sess)" and "fs_Open fs path = Some content"
    and "mid \<noteq> []" and "e \<in> set (file_entries lib path content)"
    and "message_id e = Some mid"
  shows "s_Events sess = concat (file_blocks lib path content)
    \<and> count_list (file_emit_ids lib path content) mid = 1
    \<and> (\<exists>g. authoritative lib path content mid = Some g \<and>
          (\<forall>i < length (file_entries lib path content).
             message_id (file_entries lib path content ! i) = Some mid \<longrightarrow>
             file_blocks lib path content ! i =
               (if step_ids lib (file_entries lib path content ! i)
                     (state_at lib path content i) = [mid]
                then parseAssistantMessage lib (g_entry g)
                       (parseTimestamp lib (e_Timestamp (file_entries lib path content ! i)))
                else [])))"
proof -
  from assms(1,2) have ev: "s_Events sess = concat (file_blocks lib path content)"
    by (rule session_events)
  from assms(3,4,5) have "mid \<in> dom (authoritative lib path content)"
    by (auto simp add: authoritative_dom file_entries_def)
  then obtain g where g: "authoritative lib path content mid = Some g"
    by auto
  from g have "mid \<in> set (file_emit_ids lib path content)"
    by (auto simp add: file_emit_ids_set)
  with distinct_file_emit_ids have once: "count_list (file_emit_ids lib path content) mid = 1"
    by (rule count_list_distinct)
  have "file_blocks lib path content ! i =
          (if step_ids lib (file_entries lib path content ! i) (state_at lib path content i) = [mid]
           then parseAssistantMessage lib (g_entry g)
                  (parseTimestamp lib (e_Timestamp (file_entries lib path content ! i)))
           else [])"
    if "i < length (file_entries lib path content)"
      and "message_id (file_entries lib path content ! i) = Some mid" for i
  proof -
    from that(1) have "file_blocks lib path content ! i =
        appended lib (file_entries lib path content ! i) (state_at lib path content i)"
      by (rule file_blocks_nth)
    moreover from g have "assistantMessages (state_at lib path content i) mid = Some g"
      by (simp add: state_at_stored)
    ultimately show ?thesis
      using that(2) by (simp add: appended_assistant)
  qed
  with ev once g show ?thesis by blast
qed

text \<open>
  The session's InputTokens, OutputTokens, CacheReadTokens and CacheWriteTokens are the
  sums, over the message identifiers whose retained record carries a usage block, of
  that block's input, output, cache-read and cache-creation counters. The sums are
  sums of Go ints, that is, of 64-bit words; the number of raw records per identifier
  and the number of events a record emits do not occur in them.
\<close>

lemma tokens_sum_over_retained:
  assumes "ParseSessionFile lib fs path (Inr sess)" and "fs_Open fs path = Some content"
  shows "i_InputTokens (s_Info sess) =
       (\<Sum>mid\<in>ids_with_usage lib path content.
          usage_in (final_usage (the (authoritative lib path content mid))))
    \<and> i_OutputTokens (s_Info sess) =
       (\<Sum>mid\<in>ids_with_usage lib path content.
          usage_out (final_usage (the (authoritative lib path content mid))))
    \<and> i_CacheReadTokens (s_Info sess) =
       (\<Sum>mid\<in>ids_with_usage lib path content.
          usage_cache_read (final_usage (the (authoritative lib path content mid))))
    \<and> i_CacheWriteTokens (s_Info sess) =
       (\<Sum>mid\<in>ids_with_usage lib path content.
          usage_cache_write (final_usage (the (authoritative lib path content mid))))"
proof -
  from assms have "sess = finish (parse_file lib path content) (i_FilesRead (s_Info sess))
           (i_FilesWritten (s_Info sess)) (i_FilesCreated (s_Info sess))"
    by (rule ParseSessionFile_Inr)
  then have "i_InputTokens (s_Info sess) = i_InputTokens (sess_Info (parse_file lib path content))"
    and "i_OutputTokens (s_Info sess) = i_OutputTokens (sess_Info (parse_file lib path content))"
    and "i_CacheReadTokens (s_Info sess) = i_CacheReadTokens (sess_Info (parse_file lib path content))"
    and "i_CacheWriteTokens (s_Info sess) = i_CacheWriteTokens (sess_Info (parse_file lib path content))"
    by (metis finish_simps(5), metis finish_simps(6), metis finish_simps(7), metis finish_simps(8))
  then show ?thesis
    by (simp add: parse_file_tokens)
qed



subsection \<open>More sample files\<close>

lemma sample_file:
  assumes "\<forall>l\<in>set ls. LF \<notin> set l \<and> length l < maxLine \<and> (l = [] \<or> last l \<noteq> CR)"
  shows "file_entries lib path (file_of ls) = decoded lib ls"
    and "authoritative lib path (file_of ls) = fold (resolve lib) (decoded lib ls) Map.empty"
  using assms
  by (simp_all add: file_entries_def read_all_allEntries authoritative_eq scanner_lines_file_of)

lemma example_entries:
  "file_entries sample_lib sample_path file_example = [r_user_hi, r_asst_bash, r_tool_result]"
  unfolding file_example_def
  by (subst sample_file(1))
     (simp_all add: LF_def CR_def maxLine_def decoded_def sample_lib_simps sample_Unmarshal_def)

lemma example_stored:
  "authoritative sample_lib sample_path file_example =
     [''m1'' \<mapsto> \<lparr> g_entry = r_asst_bash, g_timestamp = 200 \<rparr>]"
  unfolding file_example_def
  by (subst sample_file(2))
     (simp_all add: LF_def CR_def maxLine_def decoded_def sample_eval)

lemma unordered_entries:
  "file_entries sample_lib sample_path file_unordered = [r_tool_result, r_user_hi]"
  unfolding file_unordered_def
  by (subst sample_file(1))
     (simp_all add: LF_def CR_def maxLine_def decoded_def sample_lib_simps sample_Unmarshal_def)

lemma unordered_stored:
  "authoritative sample_lib sample_path file_unordered = Map.empty"
  unfolding file_unordered_def
  by (subst sample_file(2))
     (simp_all add: LF_def CR_def maxLine_def decoded_def sample_eval)

lemma quiet_entries:
  "file_entries sample_lib sample_path file_quiet = [r_user_hi, r_summary, r_asst_noid]"
  unfolding file_quiet_def
  by (subst sample_file(1))
     (simp_all add: LF_def CR_def maxLine_def decoded_def sample_lib_simps sample_Unmarshal_def)

lemma quiet_stored:
  "authoritative sample_lib sample_path file_quiet = Map.empty"
  unfolding file_quiet_def
  by (subst sample_file(2))
     (simp_all add: LF_def CR_def maxLine_def decoded_def sample_eval)

lemmas step_eval = timeline_step_def Let_def emits_def emit_def track_tool_def
      parseAssistantMessage_def assistant_block_def parseUserMessage_def user_block_def
      sample_records sample_lib_simps item_text_def tool_result_output_def
      lookup_def string_or_zero_def zero_Event_def sample_TrimSpace_def

lemma example_files:
  "filesRead (parse_file sample_lib sample_path file_example) = {}"
  "filesWritten (parse_file sample_lib sample_path file_example) = {}"
  "filesCreated (parse_file sample_lib sample_path file_example) = {}"
  by (simp_all add: parse_file_timeline example_entries read_all_rest
      authoritative_def [symmetric] example_stored step_eval)

lemma unordered_files:
  "filesRead (parse_file sample_lib sample_path file_unordered) = {}"
  "filesWritten (parse_file sample_lib sample_path file_unordered) = {}"
  "filesCreated (parse_file sample_lib sample_path file_unordered) = {}"
  by (simp_all add: parse_file_timeline unordered_entries read_all_rest
      authoritative_def [symmetric] unordered_stored step_eval)

lemma quiet_files:
  "filesRead (parse_file sample_lib sample_path file_quiet) = {}"
  "filesWritten (parse_file sample_lib sample_path file_quiet) = {}"
  "filesCreated (parse_file sample_lib sample_path file_quiet) = {}"
  by (simp_all add: parse_file_timeline quiet_entries read_all_rest
      authoritative_def [symmetric] quiet_stored step_eval)

lemma example_session:
  "ParseSessionFile sample_lib (fs_with sample_path file_example) sample_path
     (Inr (finish (parse_file sample_lib sample_path file_example) [] [] []))"
  by (rule ParseSessionFile_finish) (simp_all add: example_files range_order_def)

lemma unordered_session:
  "ParseSessionFile sample_lib (fs_with sample_path file_unordered) sample_path
     (Inr (finish (parse_file sample_lib sample_path file_unordered) [] [] []))"
  by (rule ParseSessionFile_finish) (simp_all add: unordered_files range_order_def)

lemma quiet_session:
  "ParseSessionFile sample_lib (fs_with sample_path file_quiet) sample_path
     (Inr (finish (parse_file sample_lib sample_path file_quiet) [] [] []))"
  by (rule ParseSessionFile_finish) (simp_all add: quiet_files range_order_def)



subsection \<open>The order of the events\<close>

lemma sorted_concat_blocks:
  fixes f :: "'a \<Rightarrow> int"
  shows "length bs = length ts \<Longrightarrow> (\<forall>i<length bs. \<forall>x\<in>set (bs ! i). f x = ts ! i) \<Longrightarrow>
    sorted ts \<Longrightarrow> sorted (map f (concat bs))"
proof (induction bs arbitrary: ts)
  case Nil
  then show ?case by simp
next
  case (Cons b bs)
  then obtain t ts' where ts: "ts = t # ts'"
    by (cases ts) auto
  from Cons.prems ts have len: "length bs = length ts'" by simp
  have here: "\<forall>x\<in>set b. f x = t"
    using Cons.prems(2) ts by (auto dest: spec [of _ 0])
  have rest: "\<forall>i<length bs. \<forall>x\<in>set (bs ! i). f x = ts' ! i"
  proof (intro allI impI)
    fix i assume "i < length bs"
    then have "Suc i < length (b # bs)" by simp
    with Cons.prems(2) have "\<forall>x\<in>set ((b # bs) ! Suc i). f x = ts ! Suc i" by blast
    with ts show "\<forall>x\<in>set (bs ! i). f x = ts' ! i" by simp
  qed
  from Cons.prems(3) ts have s': "sorted ts'" and le: "\<forall>u\<in>set ts'. t \<le> u"
    by simp_all
  from len rest s' have IH: "sorted (map f (concat bs))"
    by (rule Cons.IH)
  have later: "\<forall>y\<in>set (concat bs). t \<le> f y"
  proof
    fix y assume "y \<in> set (concat bs)"
    then obtain c where "c \<in> set bs" "y \<in> set c" by auto
    then obtain i where i: "i < length bs" "bs ! i = c"
      by (auto simp add: in_set_conv_nth)
    with rest \<open>y \<in> set c\<close> have "f y = ts' ! i" by auto
    moreover from i len have "ts' ! i \<in> set ts'" by simp
    ultimately show "t \<le> f y" using le by auto
  qed
  have "sorted (map f b)"
    using here by (induction b) auto
  with IH here later show ?case
    by (auto simp add: sorted_append)
qed

lemma file_blocks_stamps:
  assumes "i < length (file_entries lib path content)"
    and "x \<in> set (file_blocks lib path content ! i)"
  shows "ev_Timestamp x = parseTimestamp lib (e_Timestamp (file_entries lib path content ! i))"
  using assms by (simp add: file_blocks_nth appended_ts)

text \<open>
  Claim C3 (event ordering), as amended. The events of a returned session are never
  sorted: they stand in the file order of the records at which they were appended,
  each stamped with the timestamp of that record. They are non-decreasing by timestamp
  whenever the timestamps of the records are non-decreasing in file order.
\<close>

theorem events_in_file_order:
  assumes "ParseSessionFile lib fs path (Inr sess)" and "fs_Open fs path = Some content"
  shows "s_Events sess = concat (file_blocks lib path content)
    \<and> length (file_blocks lib path content) = length (file_entries lib path content)
    \<and> (\<forall>i < length (file_entries lib path content).
          \<forall>x \<in> set (file_blocks lib path content ! i).
            ev_Timestamp x = parseTimestamp lib (e_Timestamp (file_entries lib path content ! i)))
    \<and> (sorted (map (\<lambda>e. parseTimestamp lib (e_Timestamp e)) (file_entries lib path content))
          \<longrightarrow> sorted (map ev_Timestamp (s_Events sess)))"
proof -
  let ?ts = "map (\<lambda>e. parseTimestamp lib (e_Timestamp e)) (file_entries lib path content)"
  from assms have ev: "s_Events sess = concat (file_blocks lib path content)"
    by (rule session_events)
  have len: "length (file_blocks lib path content) = length ?ts"
    by (simp add: length_file_blocks)
  have stamps: "\<forall>i<length (file_blocks lib path content).
      \<forall>x\<in>set (file_blocks lib path content ! i). ev_Timestamp x = ?ts ! i"
    by (simp add: length_file_blocks file_blocks_stamps)
  have "sorted (map ev_Timestamp (concat (file_blocks lib path content)))" if "sorted ?ts"
    using len stamps that by (rule sorted_concat_blocks)
  with ev show ?thesis
    by (simp add: length_file_blocks file_blocks_stamps)
qed

theorem events_in_file_order_witness:
  "sorted (map (\<lambda>e. parseTimestamp sample_lib (e_Timestamp e))
       (file_entries sample_lib sample_path file_example))
   \<and> s_Events (finish (parse_file sample_lib sample_path file_example) [] [] [])
       = concat (file_blocks sample_lib sample_path file_example)
   \<and> sorted (map ev_Timestamp
       (s_Events (finish (parse_file sample_lib sample_path file_example) [] [] [])))"
proof -
  have s: "sorted (map (\<lambda>e. parseTimestamp sample_lib (e_Timestamp e))
       (file_entries sample_lib sample_path file_example))"
    by (simp add: example_entries parseTimestamp_def sample_lib_simps sample_time_Parse_def
        sample_records)
  with events_in_file_order [OF example_session fs_with_Open] show ?thesis
    by blast
qed

text \<open>The events of the file with the later timestamp first come out in file order,
  not in the order of their timestamps.\<close>

lemma unordered_stamps:
  "map ev_Timestamp (sess_Events (parse_file sample_lib sample_path file_unordered)) = [300, 100]"
  by (simp add: parse_file_timeline unordered_entries read_all_rest
      authoritative_def [symmetric] unordered_stored step_eval parseTimestamp_def
      sample_time_Parse_def)

theorem events_not_sorted:
  "ParseSessionFile sample_lib (fs_with sample_path file_unordered) sample_path
     (Inr (finish (parse_file sample_lib sample_path file_unordered) [] [] []))
   \<and> map ev_Timestamp
       (s_Events (finish (parse_file sample_lib sample_path file_unordered) [] [] []))
     = [300, 100]
   \<and> \<not> sorted (map ev_Timestamp
       (s_Events (finish (parse_file sample_lib sample_path file_unordered) [] [] [])))"
  using unordered_session by (simp add: finish_simps unordered_stamps)


subsection \<open>Records that emit nothing\<close>

lemma state_at_Suc:
  assumes "i < length (file_entries lib path content)"
  shows "state_at lib path content (Suc i) =
     timeline_step lib (file_entries lib path content ! i) (state_at lib path content i)"
  using assms by (simp add: state_at_timeline take_Suc_conv_app_nth timeline_append)

lemma state_at_end:
  "state_at lib path content (length (file_entries lib path content)) = parse_file lib path content"
  by (simp add: state_at_timeline parse_file_timeline)

lemma timeline_step_times:
  "i_StartTime (sess_Info (timeline_step lib e st)) =
     i_StartTime (bump_times (parseTimestamp lib (e_Timestamp e)) (sess_Info st))"
  "i_LastUpdate (sess_Info (timeline_step lib e st)) =
     i_LastUpdate (bump_times (parseTimestamp lib (e_Timestamp e)) (sess_Info st))"
  by (simp_all add: timeline_step_def Let_def fold_count_user_info emit_times
      split: option.splits)

lemma bump_times_last:
  "i_LastUpdate (bump_times ts info) = max (i_LastUpdate info) ts"
  by (simp add: bump_times_def Let_def After_def)

lemma bump_times_start:
  "i_StartTime (bump_times ts info) =
     (if i_StartTime info = 0 \<or> (ts \<noteq> 0 \<and> ts < i_StartTime info) then ts
      else i_StartTime info)"
  by (simp add: bump_times_def Let_def After_def Before_def IsZero_def)

lemma timeline_last_mono:
  "i_LastUpdate (sess_Info st) \<le> i_LastUpdate (sess_Info (timeline lib es st))"
proof (induction es arbitrary: st)
  case Nil
  show ?case by simp
next
  case (Cons e es)
  have "i_LastUpdate (sess_Info st) \<le> i_LastUpdate (sess_Info (timeline_step lib e st))"
    by (simp add: timeline_step_times bump_times_last)
  also have "\<dots> \<le> i_LastUpdate (sess_Info (timeline lib es (timeline_step lib e st)))"
    by (rule Cons.IH)
  finally show ?case by simp
qed

lemma timeline_start_bound:
  assumes "i_StartTime (sess_Info st) \<noteq> 0" "i_StartTime (sess_Info st) \<le> t"
  shows "i_StartTime (sess_Info (timeline lib es st)) \<noteq> 0
       \<and> i_StartTime (sess_Info (timeline lib es st)) \<le> t"
  using assms
proof (induction es arbitrary: st)
  case Nil
  then show ?case by simp
next
  case (Cons e es)
  from Cons.prems have "i_StartTime (sess_Info (timeline_step lib e st)) \<noteq> 0"
    and "i_StartTime (sess_Info (timeline_step lib e st)) \<le> t"
    by (auto simp add: timeline_step_times bump_times_start)
  then show ?case
    using Cons.IH by simp
qed

lemma record_time_bounds:
  assumes "i < length (file_entries lib path content)"
  shows "parseTimestamp lib (e_Timestamp (file_entries lib path content ! i))
           \<le> i_LastUpdate (sess_Info (parse_file lib path content))"
    and "parseTimestamp lib (e_Timestamp (file_entries lib path content ! i)) \<noteq> 0 \<Longrightarrow>
         i_StartTime (sess_Info (parse_file lib path content)) \<noteq> 0 \<and>
         i_StartTime (sess_Info (parse_file lib path content))
           \<le> parseTimestamp lib (e_Timestamp (file_entries lib path content ! i))"
proof -
  let ?es = "file_entries lib path content"
  let ?ts = "parseTimestamp lib (e_Timestamp (?es ! i))"
  let ?st = "timeline_step lib (?es ! i) (state_at lib path content i)"
  from assms have split: "?es = take i ?es @ (?es ! i) # drop (Suc i) ?es"
    by (simp add: id_take_nth_drop)
  have "parse_file lib path content =
      timeline lib (take i ?es @ (?es ! i) # drop (Suc i) ?es) (read_all lib path content)"
    using split by (simp add: parse_file_timeline)
  then have pf: "parse_file lib path content = timeline lib (drop (Suc i) ?es) ?st"
    by (simp add: timeline_append state_at_timeline)
  have "?ts \<le> i_LastUpdate (sess_Info ?st)"
    by (simp add: timeline_step_times bump_times_last)
  also have "\<dots> \<le> i_LastUpdate (sess_Info (timeline lib (drop (Suc i) ?es) ?st))"
    by (rule timeline_last_mono)
  finally show "?ts \<le> i_LastUpdate (sess_Info (parse_file lib path content))"
    by (simp add: pf)
  assume nz: "?ts \<noteq> 0"
  then have "i_StartTime (sess_Info ?st) \<noteq> 0" and "i_StartTime (sess_Info ?st) \<le> ?ts"
    by (auto simp add: timeline_step_times bump_times_start)
  then have "i_StartTime (sess_Info (timeline lib (drop (Suc i) ?es) ?st)) \<noteq> 0
       \<and> i_StartTime (sess_Info (timeline lib (drop (Suc i) ?es) ?st)) \<le> ?ts"
    by (rule timeline_start_bound)
  then show "i_StartTime (sess_Info (parse_file lib path content)) \<noteq> 0 \<and>
         i_StartTime (sess_Info (parse_file lib path content)) \<le> ?ts"
    by (simp add: pf)
qed

lemma timeline_step_summary:
  assumes "e_Type e = ''user''" "e_IsCompactSummary e"
  shows "timeline_step lib e st =
     st\<lparr> sess_Info := bump_times (parseTimestamp lib (e_Timestamp e)) (sess_Info st) \<rparr>"
  using assms by (simp add: timeline_step_def Let_def)

lemma appended_summary:
  assumes "e_Type e = ''user''" "e_IsCompactSummary e"
  shows "appended lib e st = []"
  using assms by (simp add: appended_def Let_def)

lemma emits_idless:
  assumes "e_Message e = None \<or> (\<exists>msg. e_Message e = Some msg \<and> m_ID msg = [])"
  shows "\<not> emits st e"
  using assms by (auto simp add: emits_def)

lemma timeline_step_idless:
  assumes "e_Type e = ''assistant''"
    "e_Message e = None \<or> (\<exists>msg. e_Message e = Some msg \<and> m_ID msg = [])"
  shows "timeline_step lib e st =
     st\<lparr> sess_Info := bump_times (parseTimestamp lib (e_Timestamp e)) (sess_Info st) \<rparr>"
proof -
  from assms(2) have "\<not> emits (st\<lparr> sess_Info := bump_times (parseTimestamp lib (e_Timestamp e)) (sess_Info st) \<rparr>) e"
    by (rule emits_idless)
  with assms(1) show ?thesis
    by (simp add: timeline_step_def Let_def del: emits_info)
qed

lemma appended_idless:
  assumes "e_Type e = ''assistant''"
    "e_Message e = None \<or> (\<exists>msg. e_Message e = Some msg \<and> m_ID msg = [])"
  shows "appended lib e st = []"
proof -
  from assms(2) have "\<not> emits st e" by (rule emits_idless)
  with assms(1) show ?thesis
    by (simp add: appended_def Let_def)
qed

lemma resolve_idless:
  assumes "e_Message e = None \<or> (\<exists>msg. e_Message e = Some msg \<and> m_ID msg = [])"
  shows "resolve lib e am = am"
  using assms by (auto simp add: resolve_def)

lemma session_times:
  assumes "ParseSessionFile lib fs path (Inr sess)" "fs_Open fs path = Some content"
  shows "i_StartTime (s_Info sess) = i_StartTime (sess_Info (parse_file lib path content))"
    and "i_LastUpdate (s_Info sess) = i_LastUpdate (sess_Info (parse_file lib path content))"
proof -
  from assms have "sess = finish (parse_file lib path content) (i_FilesRead (s_Info sess))
           (i_FilesWritten (s_Info sess)) (i_FilesCreated (s_Info sess))"
    by (rule ParseSessionFile_Inr)
  then show "i_StartTime (s_Info sess) = i_StartTime (sess_Info (parse_file lib path content))"
    and "i_LastUpdate (s_Info sess) = i_LastUpdate (sess_Info (parse_file lib path content))"
    by (metis finish_simps(9), metis finish_simps(10))
qed

text \<open>
  Claim C7 (compaction-summary exclusion). A record of type \<open>user\<close> whose
  \<open>isCompactSummary\<close> flag is set appends no event: the events of the returned session
  are the blocks appended record by record, and the block of such a record is empty.
  The second loop passes it by changing nothing but the running start and last-update
  times, so that it is counted neither as a prompt nor as a tool result.
\<close>

theorem compact_summary_excluded:
  assumes "ParseSessionFile lib fs path (Inr sess)" and "fs_Open fs path = Some content"
    and "i < length (file_entries lib path content)"
    and "e_Type (file_entries lib path content ! i) = ''user''"
    and "e_IsCompactSummary (file_entries lib path content ! i)"
  shows "s_Events sess = concat (file_blocks lib path content)
    \<and> file_blocks lib path content ! i = []
    \<and> state_at lib path content (Suc i) =
        (state_at lib path content i)\<lparr> sess_Info :=
           bump_times (parseTimestamp lib (e_Timestamp (file_entries lib path content ! i)))
             (sess_Info (state_at lib path content i)) \<rparr>"
proof -
  from assms(1,2) have "s_Events sess = concat (file_blocks lib path content)"
    by (rule session_events)
  moreover from assms(3,4,5) have "file_blocks lib path content ! i = []"
    by (simp add: file_blocks_nth appended_summary)
  moreover from assms(3,4,5) have "state_at lib path content (Suc i) =
        (state_at lib path content i)\<lparr> sess_Info :=
           bump_times (parseTimestamp lib (e_Timestamp (file_entries lib path content ! i)))
             (sess_Info (state_at lib path content i)) \<rparr>"
    by (simp add: state_at_Suc timeline_step_summary)
  ultimately show ?thesis by simp
qed

theorem compact_summary_excluded_witness:
  "file_entries sample_lib sample_path file_quiet ! 1 = r_summary
   \<and> e_Type r_summary = ''user'' \<and> e_IsCompactSummary r_summary
   \<and> file_blocks sample_lib sample_path file_quiet ! 1 = []
   \<and> s_Events (finish (parse_file sample_lib sample_path file_quiet) [] [] [])
       = concat (file_blocks sample_lib sample_path file_quiet)"
proof -
  have h3: "1 < length (file_entries sample_lib sample_path file_quiet)"
    by (simp add: quiet_entries)
  have e: "file_entries sample_lib sample_path file_quiet ! 1 = r_summary"
    by (simp add: quiet_entries)
  have t: "e_Type r_summary = ''user''" and c: "e_IsCompactSummary r_summary"
    by (simp_all add: sample_records)
  from t e have h4: "e_Type (file_entries sample_lib sample_path file_quiet ! 1) = ''user''"
    by simp
  from c e have h5: "e_IsCompactSummary (file_entries sample_lib sample_path file_quiet ! 1)"
    by simp
  from compact_summary_excluded [OF quiet_session fs_with_Open h3 h4 h5] e t c
  show ?thesis by blast
qed

lemma first_loop_times:
  "i_StartTime (sess_Info (read_all lib path content)) = 0"
  "i_LastUpdate (sess_Info (read_all lib path content)) = 0"
proof -
  have keep: "i_StartTime (sess_Info (fold (read_line lib) ls st)) = i_StartTime (sess_Info st)
    \<and> i_LastUpdate (sess_Info (fold (read_line lib) ls st)) = i_LastUpdate (sess_Info st)"
    for ls st
    by (induction ls arbitrary: st)
       (simp_all add: read_line_def first_model_def first_cwd_def split: option.splits)
  have init: "i_StartTime (sess_Info (init_state path)) = 0"
    "i_LastUpdate (sess_Info (init_state path)) = 0"
    by (simp_all add: init_state_def Let_def zero_SessionInfo_def)
  show "i_StartTime (sess_Info (read_all lib path content)) = 0"
    "i_LastUpdate (sess_Info (read_all lib path content)) = 0"
    by (simp_all add: read_all_def keep init)
qed

lemma noid_entries:
  "file_entries sample_lib sample_path file_noid = [r_asst_noid]"
  unfolding file_noid_def
  by (subst sample_file(1))
     (simp_all add: LF_def CR_def maxLine_def decoded_def sample_lib_simps sample_Unmarshal_def)

lemma noid_stored:
  "authoritative sample_lib sample_path file_noid = Map.empty"
  unfolding file_noid_def
  by (subst sample_file(2))
     (simp_all add: LF_def CR_def maxLine_def decoded_def sample_eval)

lemma noid_files:
  "filesRead (parse_file sample_lib sample_path file_noid) = {}"
  "filesWritten (parse_file sample_lib sample_path file_noid) = {}"
  "filesCreated (parse_file sample_lib sample_path file_noid) = {}"
  by (simp_all add: parse_file_timeline noid_entries read_all_rest
      authoritative_def [symmetric] noid_stored step_eval)

lemma noid_session:
  "ParseSessionFile sample_lib (fs_with sample_path file_noid) sample_path
     (Inr (finish (parse_file sample_lib sample_path file_noid) [] [] []))"
  by (rule ParseSessionFile_finish) (simp_all add: noid_files range_order_def)

lemma noid_state:
  "parse_file sample_lib sample_path file_noid =
     (read_all sample_lib sample_path file_noid)\<lparr> sess_Info :=
        bump_times 300 (sess_Info (read_all sample_lib sample_path file_noid)) \<rparr>"
proof -
  have "parseTimestamp sample_lib (e_Timestamp r_asst_noid) = 300"
    by (simp add: sample_records parseTimestamp_def sample_lib_simps sample_time_Parse_def)
  moreover have "e_Type r_asst_noid = ''assistant''"
    and "e_Message r_asst_noid = None
      \<or> (\<exists>msg. e_Message r_asst_noid = Some msg \<and> m_ID msg = [])"
    by (simp_all add: sample_records)
  ultimately show ?thesis
    by (simp add: parse_file_timeline noid_entries timeline_step_idless)
qed

text \<open>
  Claim C9 (assistant record without a message or with an empty message id). Such a
  record is kept by neither loop: it is the authoritative record of no identifier, its
  block of events is empty, no identifier is emitted at it, and the second loop passes
  it by changing nothing but the running start and last-update times, so that the four
  token counters are after it what they were before it. Its timestamp does take part
  in these two times: the session's LastUpdate is not before it and, when it is not the
  zero time, the session's StartTime is set and is not after it.
\<close>

theorem idless_assistant_record:
  assumes "ParseSessionFile lib fs path (Inr sess)" and "fs_Open fs path = Some content"
    and "i < length (file_entries lib path content)"
    and "e_Type (file_entries lib path content ! i) = ''assistant''"
    and "e_Message (file_entries lib path content ! i) = None
         \<or> (\<exists>msg. e_Message (file_entries lib path content ! i) = Some msg \<and> m_ID msg = [])"
  shows "s_Events sess = concat (file_blocks lib path content)
    \<and> file_blocks lib path content ! i = []
    \<and> step_ids lib (file_entries lib path content ! i) (state_at lib path content i) = []
    \<and> (\<forall>mid g. authoritative lib path content mid = Some g \<longrightarrow>
          g_entry g \<noteq> file_entries lib path content ! i)
    \<and> state_at lib path content (Suc i) =
        (state_at lib path content i)\<lparr> sess_Info :=
           bump_times (parseTimestamp lib (e_Timestamp (file_entries lib path content ! i)))
             (sess_Info (state_at lib path content i)) \<rparr>
    \<and> i_InputTokens (sess_Info (state_at lib path content (Suc i)))
         = i_InputTokens (sess_Info (state_at lib path content i))
    \<and> i_OutputTokens (sess_Info (state_at lib path content (Suc i)))
         = i_OutputTokens (sess_Info (state_at lib path content i))
    \<and> i_CacheReadTokens (sess_Info (state_at lib path content (Suc i)))
         = i_CacheReadTokens (sess_Info (state_at lib path content i))
    \<and> i_CacheWriteTokens (sess_Info (state_at lib path content (Suc i)))
         = i_CacheWriteTokens (sess_Info (state_at lib path content i))
    \<and> parseTimestamp lib (e_Timestamp (file_entries lib path content ! i))
         \<le> i_LastUpdate (s_Info sess)
    \<and> (parseTimestamp lib (e_Timestamp (file_entries lib path content ! i)) \<noteq> 0 \<longrightarrow>
         i_StartTime (s_Info sess) \<noteq> 0
         \<and> i_StartTime (s_Info sess)
              \<le> parseTimestamp lib (e_Timestamp (file_entries lib path content ! i)))"
proof -
  let ?e = "file_entries lib path content ! i"
  from assms(1,2) have ev: "s_Events sess = concat (file_blocks lib path content)"
    by (rule session_events)
  from assms(3,4,5) have blk: "file_blocks lib path content ! i = []"
    by (simp add: file_blocks_nth appended_idless)
  from assms(5) have "\<not> emits (state_at lib path content i) ?e"
    by (rule emits_idless)
  then have ids: "step_ids lib ?e (state_at lib path content i) = []"
    by (simp add: step_ids_def)
  have auth: "g_entry g \<noteq> ?e" if "authoritative lib path content mid = Some g" for mid g
  proof
    assume eq: "g_entry g = ?e"
    from that have "message_id (g_entry g) = Some mid" and "mid \<noteq> []"
      by (rule authoritative_stored(2), rule authoritative_stored(3))
    with eq assms(5) show False
      by (auto simp add: message_id_def split: if_splits)
  qed
  from assms(3,4,5) have st: "state_at lib path content (Suc i) =
        (state_at lib path content i)\<lparr> sess_Info :=
           bump_times (parseTimestamp lib (e_Timestamp ?e))
             (sess_Info (state_at lib path content i)) \<rparr>"
    by (simp add: state_at_Suc timeline_step_idless)
  have tok: "i_InputTokens (sess_Info (state_at lib path content (Suc i)))
         = i_InputTokens (sess_Info (state_at lib path content i))"
    "i_OutputTokens (sess_Info (state_at lib path content (Suc i)))
         = i_OutputTokens (sess_Info (state_at lib path content i))"
    "i_CacheReadTokens (sess_Info (state_at lib path content (Suc i)))
         = i_CacheReadTokens (sess_Info (state_at lib path content i))"
    "i_CacheWriteTokens (sess_Info (state_at lib path content (Suc i)))
         = i_CacheWriteTokens (sess_Info (state_at lib path content i))"
    by (simp_all add: st bump_times_tokens)
  from assms(3) have last: "parseTimestamp lib (e_Timestamp ?e) \<le> i_LastUpdate (s_Info sess)"
    by (simp add: session_times [OF assms(1,2)] record_time_bounds(1))
  have start: "i_StartTime (s_Info sess) \<noteq> 0
      \<and> i_StartTime (s_Info sess) \<le> parseTimestamp lib (e_Timestamp ?e)"
    if "parseTimestamp lib (e_Timestamp ?e) \<noteq> 0"
    using record_time_bounds(2) [OF assms(3) that]
    by (simp add: session_times [OF assms(1,2)])
  from ev blk ids auth st tok last start show ?thesis
    by blast
qed

text \<open>On a file that holds nothing but an assistant record with an empty message id
  (timestamp 300, usage 7/3/2/1) the session has no event and no tokens, and both of
  its times are the timestamp of that record.\<close>

theorem idless_assistant_record_witness:
  "file_entries sample_lib sample_path file_noid ! 0 = r_asst_noid
   \<and> e_Type r_asst_noid = ''assistant''
   \<and> map_option m_ID (e_Message r_asst_noid) = Some []
   \<and> map_option m_Usage (e_Message r_asst_noid)
        = Some (Some \<lparr> u_InputTokens = 7, u_OutputTokens = 3,
             u_CacheCreationInputTokens = 2, u_CacheReadInputTokens = 1 \<rparr>)
   \<and> parseTimestamp sample_lib (e_Timestamp r_asst_noid) = 300
   \<and> s_Events (finish (parse_file sample_lib sample_path file_noid) [] [] []) = []
   \<and> i_StartTime (s_Info (finish (parse_file sample_lib sample_path file_noid) [] [] [])) = 300
   \<and> i_LastUpdate (s_Info (finish (parse_file sample_lib sample_path file_noid) [] [] [])) = 300
   \<and> i_InputTokens (s_Info (finish (parse_file sample_lib sample_path file_noid) [] [] [])) = 0
   \<and> i_OutputTokens (s_Info (finish (parse_file sample_lib sample_path file_noid) [] [] [])) = 0
   \<and> i_CacheReadTokens (s_Info (finish (parse_file sample_lib sample_path file_noid) [] [] [])) = 0
   \<and> i_CacheWriteTokens (s_Info (finish (parse_file sample_lib sample_path file_noid) [] [] [])) = 0"
proof -
  let ?sess = "finish (parse_file sample_lib sample_path file_noid) [] [] []"
  have h3: "0 < length (file_entries sample_lib sample_path file_noid)"
    by (simp add: noid_entries)
  have e: "file_entries sample_lib sample_path file_noid ! 0 = r_asst_noid"
    by (simp add: noid_entries)
  have t: "e_Type r_asst_noid = ''assistant''"
    and m: "map_option m_ID (e_Message r_asst_noid) = Some []"
    and u: "map_option m_Usage (e_Message r_asst_noid)
        = Some (Some \<lparr> u_InputTokens = 7, u_OutputTokens = 3,
             u_CacheCreationInputTokens = 2, u_CacheReadInputTokens = 1 \<rparr>)"
    and ts: "parseTimestamp sample_lib (e_Timestamp r_asst_noid) = 300"
    by (simp_all add: sample_records parseTimestamp_def sample_lib_simps sample_time_Parse_def)
  from t e have h4: "e_Type (file_entries sample_lib sample_path file_noid ! 0) = ''assistant''"
    by simp
  from m e have h5: "e_Message (file_entries sample_lib sample_path file_noid ! 0) = None
      \<or> (\<exists>msg. e_Message (file_entries sample_lib sample_path file_noid ! 0) = Some msg
            \<and> m_ID msg = [])"
    by auto
  note inst = idless_assistant_record [OF noid_session fs_with_Open h3 h4 h5]
  from inst have blk: "s_Events ?sess = concat (file_blocks sample_lib sample_path file_noid)"
    and nil: "file_blocks sample_lib sample_path file_noid ! 0 = []"
    and last: "300 \<le> i_LastUpdate (s_Info ?sess)"
    and start: "i_StartTime (s_Info ?sess) \<noteq> 0 \<and> i_StartTime (s_Info ?sess) \<le> 300"
    by (simp_all add: e ts)
  have "length (file_blocks sample_lib sample_path file_noid) = 1"
    by (simp add: length_file_blocks noid_entries)
  with nil have "file_blocks sample_lib sample_path file_noid = [[]]"
    by (cases "file_blocks sample_lib sample_path file_noid") simp_all
  with blk have ev: "s_Events ?sess = []"
    by simp
  have times: "i_StartTime (s_Info ?sess) = 300" "i_LastUpdate (s_Info ?sess) = 300"
    by (simp_all add: finish_simps noid_state bump_times_start bump_times_last first_loop_times)
  have toks: "i_InputTokens (s_Info ?sess) = 0" "i_OutputTokens (s_Info ?sess) = 0"
    "i_CacheReadTokens (s_Info ?sess) = 0" "i_CacheWriteTokens (s_Info ?sess) = 0"
    by (simp_all add: finish_simps noid_state bump_times_tokens first_loop_tokens)
  from e t m u ts ev times toks start last show ?thesis
    by simp
qed


subsection \<open>Determinism\<close>

lemma reads_entries:
  "file_entries sample_lib sample_path file_reads = [r_asst_reads]"
  unfolding file_reads_def
  by (subst sample_file(1))
     (simp_all add: LF_def CR_def maxLine_def decoded_def sample_lib_simps sample_Unmarshal_def)

lemma reads_stored:
  "authoritative sample_lib sample_path file_reads =
     [''m2'' \<mapsto> \<lparr> g_entry = r_asst_reads, g_timestamp = 200 \<rparr>]"
  unfolding file_reads_def
  by (subst sample_file(2))
     (simp_all add: LF_def CR_def maxLine_def decoded_def sample_eval)

lemma reads_files:
  "filesRead (parse_file sample_lib sample_path file_reads) = {''a.go'', ''b.go''}"
  "filesWritten (parse_file sample_lib sample_path file_reads) = {}"
  "filesCreated (parse_file sample_lib sample_path file_reads) = {}"
  by (auto simp add: parse_file_timeline reads_entries read_all_rest
      authoritative_def [symmetric] reads_stored step_eval as_string.simps)

lemma reads_session_ab:
  "ParseSessionFile sample_lib (fs_with sample_path file_reads) sample_path
     (Inr (finish (parse_file sample_lib sample_path file_reads) [''a.go'', ''b.go''] [] []))"
  by (rule ParseSessionFile_finish) (auto simp add: reads_files range_order_def)

lemma reads_session_ba:
  "ParseSessionFile sample_lib (fs_with sample_path file_reads) sample_path
     (Inr (finish (parse_file sample_lib sample_path file_reads) [''b.go'', ''a.go''] [] []))"
  by (rule ParseSessionFile_finish) (auto simp add: reads_files range_order_def)

lemma range_order_mset:
  assumes "range_order S ks" "range_order S ks'"
  shows "mset ks = mset ks'"
  using assms by (simp add: range_order_def set_eq_iff_mset_eq_distinct [symmetric])

lemma finish_slices:
  "finish st rd wr cr =
     \<lparr> s_Info = (s_Info (finish st rd' wr' cr'))\<lparr> i_FilesRead := rd, i_FilesWritten := wr,
          i_FilesCreated := cr \<rparr>,
       s_Events = s_Events (finish st rd' wr' cr') \<rparr>"
  by (simp add: finish_def Let_def estimateCost_def)

lemma ParseSessionFile_Inl:
  "ParseSessionFile lib fs path (Inl err) \<Longrightarrow> err = OpenError \<and> fs_Open fs path = None"
  by (cases "fs_Open fs path") (simp_all add: ParseSessionFile_def)

lemma ParseSessionFile_unopened:
  "fs_Open fs path = None \<Longrightarrow> ParseSessionFile lib fs path res \<longleftrightarrow> res = Inl OpenError"
  by (simp add: ParseSessionFile_def)

text \<open>
  Claim C1 (determinism), as amended. Two runs of \<open>ParseSessionFile\<close> on the same
  content either both fail with the same error or both return a session; the two
  sessions have the same events and the same \<open>SessionInfo\<close> except for the order of its
  three slices \<open>FilesRead\<close>, \<open>FilesWritten\<close> and \<open>FilesCreated\<close>, which hold the same
  paths, each once, in an order that the iteration over a Go map leaves open.
\<close>

theorem parse_deterministic_up_to_slice_order:
  assumes "ParseSessionFile lib fs path r1" and "ParseSessionFile lib fs path r2"
  shows "(case (r1, r2) of
            (Inl e1, Inl e2) \<Rightarrow> e1 = e2
          | (Inr s1, Inr s2) \<Rightarrow>
              s_Events s1 = s_Events s2
              \<and> s_Info s1 = (s_Info s2)\<lparr> i_FilesRead := i_FilesRead (s_Info s1),
                    i_FilesWritten := i_FilesWritten (s_Info s1),
                    i_FilesCreated := i_FilesCreated (s_Info s1) \<rparr>
              \<and> mset (i_FilesRead (s_Info s1)) = mset (i_FilesRead (s_Info s2))
              \<and> mset (i_FilesWritten (s_Info s1)) = mset (i_FilesWritten (s_Info s2))
              \<and> mset (i_FilesCreated (s_Info s1)) = mset (i_FilesCreated (s_Info s2))
              \<and> distinct (i_FilesRead (s_Info s1)) \<and> distinct (i_FilesWritten (s_Info s1))
              \<and> distinct (i_FilesCreated (s_Info s1))
          | _ \<Rightarrow> False)"
proof (cases "fs_Open fs path")
  case None
  with assms show ?thesis
    by (simp add: ParseSessionFile_unopened)
next
  case (Some content)
  from assms(1) Some obtain s1 where r1: "r1 = Inr s1"
    by (cases r1) (simp_all add: ParseSessionFile_def)
  from assms(2) Some obtain s2 where r2: "r2 = Inr s2"
    by (cases r2) (simp_all add: ParseSessionFile_def)
  let ?st = "parse_file lib path content"
  from assms(1) r1 Some have p1: "ParseSessionFile lib fs path (Inr s1)" by simp
  from assms(2) r2 Some have p2: "ParseSessionFile lib fs path (Inr s2)" by simp
  note o1 = ParseSessionFile_Inr [OF p1 Some]
  note o2 = ParseSessionFile_Inr [OF p2 Some]
  from o1(1) have e1: "s1 = \<lparr> s_Info = (s_Info (finish ?st (i_FilesRead (s_Info s2))
         (i_FilesWritten (s_Info s2)) (i_FilesCreated (s_Info s2))))\<lparr>
           i_FilesRead := i_FilesRead (s_Info s1),
           i_FilesWritten := i_FilesWritten (s_Info s1),
           i_FilesCreated := i_FilesCreated (s_Info s1) \<rparr>,
       s_Events = s_Events (finish ?st (i_FilesRead (s_Info s2))
         (i_FilesWritten (s_Info s2)) (i_FilesCreated (s_Info s2))) \<rparr>"
    by (subst (asm) finish_slices)
  with o2(1) have e: "s1 = \<lparr> s_Info = (s_Info s2)\<lparr>
           i_FilesRead := i_FilesRead (s_Info s1),
           i_FilesWritten := i_FilesWritten (s_Info s1),
           i_FilesCreated := i_FilesCreated (s_Info s1) \<rparr>,
       s_Events = s_Events s2 \<rparr>"
    by simp
  have ev: "s_Events s1 = s_Events s2"
    by (subst e) simp
  have info: "s_Info s1 = (s_Info s2)\<lparr> i_FilesRead := i_FilesRead (s_Info s1),
                    i_FilesWritten := i_FilesWritten (s_Info s1),
                    i_FilesCreated := i_FilesCreated (s_Info s1) \<rparr>"
    by (subst e) simp
  from o1(2) o2(2) have rd: "mset (i_FilesRead (s_Info s1)) = mset (i_FilesRead (s_Info s2))"
    by (rule range_order_mset)
  from o1(3) o2(3) have wr: "mset (i_FilesWritten (s_Info s1)) = mset (i_FilesWritten (s_Info s2))"
    by (rule range_order_mset)
  from o1(4) o2(4) have cr: "mset (i_FilesCreated (s_Info s1)) = mset (i_FilesCreated (s_Info s2))"
    by (rule range_order_mset)
  from o1(2,3,4) have d: "distinct (i_FilesRead (s_Info s1))"
      "distinct (i_FilesWritten (s_Info s1))" "distinct (i_FilesCreated (s_Info s1))"
    by (simp_all add: range_order_def)
  from ev info rd wr cr d show ?thesis
    by (simp add: r1 r2)
qed

theorem parse_deterministic_up_to_slice_order_witness:
  "s_Events (finish (parse_file sample_lib sample_path file_reads) [''a.go'', ''b.go''] [] [])
     = s_Events (finish (parse_file sample_lib sample_path file_reads) [''b.go'', ''a.go''] [] [])
   \<and> s_Info (finish (parse_file sample_lib sample_path file_reads) [''a.go'', ''b.go''] [] [])
     = (s_Info (finish (parse_file sample_lib sample_path file_reads) [''b.go'', ''a.go''] [] []))
         \<lparr> i_FilesRead := [''a.go'', ''b.go''], i_FilesWritten := [], i_FilesCreated := [] \<rparr>
   \<and> mset [''a.go'', ''b.go''] = mset [''b.go'', ''a.go'']"
  using parse_deterministic_up_to_slice_order [OF reads_session_ab reads_session_ba]
  by (simp add: finish_simps)

text \<open>The two orders of the paths read are both results of parsing the sample file,
  and they are different sessions.\<close>

theorem slice_order_not_determined:
  "ParseSessionFile sample_lib (fs_with sample_path file_reads) sample_path
     (Inr (finish (parse_file sample_lib sample_path file_reads) [''a.go'', ''b.go''] [] []))
   \<and> ParseSessionFile sample_lib (fs_with sample_path file_reads) sample_path
     (Inr (finish (parse_file sample_lib sample_path file_reads) [''b.go'', ''a.go''] [] []))
   \<and> i_FilesRead (s_Info (finish (parse_file sample_lib sample_path file_reads)
        [''a.go'', ''b.go''] [] [])) = [''a.go'', ''b.go'']
   \<and> i_FilesRead (s_Info (finish (parse_file sample_lib sample_path file_reads)
        [''b.go'', ''a.go''] [] [])) = [''b.go'', ''a.go'']
   \<and> finish (parse_file sample_lib sample_path file_reads) [''a.go'', ''b.go''] [] []
     \<noteq> finish (parse_file sample_lib sample_path file_reads) [''b.go'', ''a.go''] [] []"
proof -
  have "i_FilesRead (s_Info (finish (parse_file sample_lib sample_path file_reads)
        [''a.go'', ''b.go''] [] [])) \<noteq> i_FilesRead (s_Info (finish (parse_file sample_lib sample_path file_reads)
        [''b.go'', ''a.go''] [] []))"
    by (simp add: finish_simps)
  then have "finish (parse_file sample_lib sample_path file_reads) [''a.go'', ''b.go''] [] []
     \<noteq> finish (parse_file sample_lib sample_path file_reads) [''b.go'', ''a.go''] [] []"
    by metis
  with reads_session_ab reads_session_ba show ?thesis
    by (simp add: finish_simps)
qed


subsection \<open>Malformed lines\<close>

lemma scanner_lines_short:
  assumes "\<forall>l\<in>set (raw_lines content). length l < maxLine"
  shows "scanner_lines maxLine content = map dropCR (raw_lines content)"
proof -
  from assms have "takeWhile (\<lambda>l. length l < maxLine) (raw_lines content) = raw_lines content"
    by (simp add: takeWhile_eq_all_conv)
  then show ?thesis
    by (simp only: scanner_lines_def)
qed

lemma decoded_skip:
  assumes "json_Unmarshal lib l = None"
  shows "decoded lib (xs @ l # ys) = decoded lib xs @ decoded lib ys"
  using assms by (simp add: decoded_def)

lemma decoded_member:
  assumes "l \<in> set ls" "l \<noteq> []" "json_Unmarshal lib l = Some e"
  shows "e \<in> set (decoded lib ls)"
  using assms by (force simp add: decoded_def)

lemma ParseSessionFile_returns:
  assumes "ParseSessionFile lib fs path res" "fs_Open fs path = Some content"
  shows "\<exists>sess. res = Inr sess"
  using assms by (cases res) (simp_all add: ParseSessionFile_def)

lemma scanner_lines_cut:
  assumes "raw_lines content = xs @ l # ys" "\<forall>x\<in>set xs. length x < maxLine"
    "maxLine \<le> length l"
  shows "scanner_lines maxLine content = map dropCR xs"
proof -
  from assms(2,3) have "takeWhile (\<lambda>l. length l < maxLine) (xs @ l # ys) = xs"
    by (simp add: takeWhile_append2)
  with assms(1) show ?thesis
    by (simp add: scanner_lines_def)
qed

lemma raw_lines_file_of_append:
  "\<forall>l\<in>set ls. LF \<notin> set l \<Longrightarrow> raw_lines (file_of ls @ rest) = ls @ raw_lines rest"
proof (induction ls)
  case Nil
  show ?case by (simp add: file_of_def)
next
  case (Cons l ls)
  then have "LF \<notin> set l" and "raw_lines (file_of ls @ rest) = ls @ raw_lines rest"
    by simp_all
  moreover have "file_of (l # ls) @ rest = l @ LF # (file_of ls @ rest)"
    by (simp add: file_of_def)
  ultimately show ?case
    by (simp add: raw_lines_line)
qed

text \<open>
  Claim C8 (malformed-line recovery), as amended. \<open>ParseSessionFile\<close> returns a session
  for every file it can open, whatever the lines hold. The records the session is built
  from are the records of the lines the scanner hands to the loop, in file order: a
  line that fails to decode is skipped and the lines before and after it contribute as
  if it were not there. When no line of the file reaches the scanner's limit of 10 MiB
  these are all the lines of the file. A line of 10 MiB or more ends the reading
  silently: the lines before the first such line are the ones that contribute, and the
  lines after it do not.
\<close>

theorem malformed_lines_skipped:
  assumes "ParseSessionFile lib fs path res" and "fs_Open fs path = Some content"
  shows "(\<exists>sess. res = Inr sess \<and> s_Events sess = concat (file_blocks lib path content))
    \<and> file_entries lib path content = decoded lib (scanner_lines maxLine content)
    \<and> (\<forall>xs l ys. scanner_lines maxLine content = xs @ l # ys \<and> json_Unmarshal lib l = None
          \<longrightarrow> file_entries lib path content = decoded lib xs @ decoded lib ys)
    \<and> (\<forall>l e. l \<in> set (scanner_lines maxLine content) \<and> l \<noteq> []
          \<and> json_Unmarshal lib l = Some e \<longrightarrow> e \<in> set (file_entries lib path content))
    \<and> ((\<forall>l\<in>set (raw_lines content). length l < maxLine) \<longrightarrow>
          scanner_lines maxLine content = map dropCR (raw_lines content)
          \<and> file_entries lib path content = decoded lib (map dropCR (raw_lines content)))
    \<and> (\<forall>xs l ys. raw_lines content = xs @ l # ys \<and> (\<forall>x\<in>set xs. length x < maxLine)
            \<and> maxLine \<le> length l \<longrightarrow>
          scanner_lines maxLine content = map dropCR xs
          \<and> file_entries lib path content = decoded lib (map dropCR xs))"
proof -
  from assms(1,2) obtain sess where r: "res = Inr sess"
    using ParseSessionFile_returns by blast
  with assms(1,2) have ev: "s_Events sess = concat (file_blocks lib path content)"
    by (simp add: session_events)
  have en: "file_entries lib path content = decoded lib (scanner_lines maxLine content)"
    by (simp add: file_entries_def read_all_allEntries)
  have skip: "file_entries lib path content = decoded lib xs @ decoded lib ys"
    if "scanner_lines maxLine content = xs @ l # ys" "json_Unmarshal lib l = None" for xs l ys
    using that by (simp add: en decoded_skip)
  have mem: "e \<in> set (file_entries lib path content)"
    if "l \<in> set (scanner_lines maxLine content)" "l \<noteq> []" "json_Unmarshal lib l = Some e" for l e
    unfolding en using that by (rule decoded_member)
  have short: "scanner_lines maxLine content = map dropCR (raw_lines content)
      \<and> file_entries lib path content = decoded lib (map dropCR (raw_lines content))"
    if "\<forall>l\<in>set (raw_lines content). length l < maxLine"
    using that by (simp add: en scanner_lines_short)
  have cut: "scanner_lines maxLine content = map dropCR xs
      \<and> file_entries lib path content = decoded lib (map dropCR xs)"
    if "raw_lines content = xs @ l # ys" "\<forall>x\<in>set xs. length x < maxLine" "maxLine \<le> length l"
    for xs l ys
    using that by (simp add: en scanner_lines_cut)
  from r ev en skip mem short cut show ?thesis
    by blast
qed

lemma long_line_length: "length long_line = maxLine"
  by (simp add: long_line_def)

lemma long_line_neq: "length s < maxLine \<Longrightarrow> long_line \<noteq> s"
  using long_line_length by auto

lemma long_line_malformed: "json_Unmarshal sample_lib long_line = None"
proof -
  have "long_line \<noteq> ''user-hi''" "long_line \<noteq> ''asst-bash''" "long_line \<noteq> ''asst-partial''"
    "long_line \<noteq> ''tool-result''" "long_line \<noteq> ''tie-first''" "long_line \<noteq> ''tie-second''"
    "long_line \<noteq> ''asst-reads''" "long_line \<noteq> ''summary''" "long_line \<noteq> ''asst-noid''"
    by (rule long_line_neq, simp add: maxLine_def)+
  then show ?thesis
    by (simp add: sample_lib_simps sample_Unmarshal_def)
qed

lemma long_line_raw_lines: "raw_lines file_long_line = [long_line, ''user-hi'']"
proof -
  have "LF \<notin> set long_line"
    by (auto simp add: long_line_def LF_def)
  then have "raw_lines file_long_line = long_line # raw_lines (file_of [''user-hi''])"
    unfolding file_long_line_def by (rule raw_lines_line)
  moreover have "raw_lines (file_of [''user-hi'']) = [''user-hi'']"
    by (rule raw_lines_file_of) (simp add: LF_def)
  ultimately show ?thesis by simp
qed

lemma long_line_entries: "file_entries sample_lib sample_path file_long_line = []"
  by (simp add: file_entries_def read_all_allEntries scanner_lines_def long_line_raw_lines
      long_line_length decoded_def)

lemma long_line_session:
  "ParseSessionFile sample_lib (fs_with sample_path file_long_line) sample_path
     (Inr (finish (parse_file sample_lib sample_path file_long_line) [] [] []))"
  by (rule ParseSessionFile_finish)
     (simp_all add: parse_file_timeline long_line_entries read_all_rest range_order_def)

lemma cut_raw_lines:
  "raw_lines file_cut = [''user-hi'', ''{trunc''] @ long_line # [''tool-result'']"
proof -
  have "LF \<notin> set long_line"
    by (auto simp add: long_line_def LF_def)
  then have "raw_lines (long_line @ LF # file_of [''tool-result''])
      = long_line # raw_lines (file_of [''tool-result''])"
    by (rule raw_lines_line)
  moreover have "raw_lines (file_of [''tool-result'']) = [''tool-result'']"
    by (rule raw_lines_file_of) (simp add: LF_def)
  moreover have "raw_lines (file_of [''user-hi'', ''{trunc''] @ long_line @ LF # file_of [''tool-result''])
      = [''user-hi'', ''{trunc''] @ raw_lines (long_line @ LF # file_of [''tool-result''])"
    by (rule raw_lines_file_of_append) (simp add: LF_def)
  ultimately show ?thesis
    by (simp add: file_cut_def)
qed

lemma cut_entries: "file_entries sample_lib sample_path file_cut = [r_user_hi]"
proof -
  have "scanner_lines maxLine file_cut = map dropCR [''user-hi'', ''{trunc'']"
    using cut_raw_lines
    by (rule scanner_lines_cut) (simp_all add: long_line_length maxLine_def)
  then show ?thesis
    by (simp add: file_entries_def read_all_allEntries decoded_def dropCR_def CR_def
        sample_lib_simps sample_Unmarshal_def)
qed

lemma cut_stored: "authoritative sample_lib sample_path file_cut = Map.empty"
proof -
  have "decoded sample_lib (scanner_lines maxLine file_cut) = [r_user_hi]"
    using cut_entries by (simp add: file_entries_def read_all_allEntries)
  then show ?thesis
    by (simp add: authoritative_eq resolve_def sample_records)
qed

lemma cut_files:
  "filesRead (parse_file sample_lib sample_path file_cut) = {}"
  "filesWritten (parse_file sample_lib sample_path file_cut) = {}"
  "filesCreated (parse_file sample_lib sample_path file_cut) = {}"
  by (simp_all add: parse_file_timeline cut_entries read_all_rest
      authoritative_def [symmetric] cut_stored step_eval)

lemma cut_session:
  "ParseSessionFile sample_lib (fs_with sample_path file_cut) sample_path
     (Inr (finish (parse_file sample_lib sample_path file_cut) [] [] []))"
  by (rule ParseSessionFile_finish) (simp_all add: cut_files range_order_def)

text \<open>Two files: in the first a truncated line stands between the revisions of a
  message; in the second a prompt and a truncated line are followed by a line of
  10 MiB and a tool result.\<close>

theorem malformed_lines_skipped_witness:
  "map dropCR (raw_lines file_revisions)
     = [''asst-partial''] @ ''{trunc'' # [''asst-bash'', ''asst-bash'']
   \<and> json_Unmarshal sample_lib ''{trunc'' = None
   \<and> file_entries sample_lib sample_path file_revisions = [r_asst_partial, r_asst_bash, r_asst_bash]
   \<and> raw_lines file_cut = [''user-hi'', ''{trunc''] @ long_line # [''tool-result'']
   \<and> maxLine \<le> length long_line
   \<and> json_Unmarshal sample_lib ''tool-result'' = Some r_tool_result
   \<and> scanner_lines maxLine file_cut = [''user-hi''] @ ''{trunc'' # []
   \<and> file_entries sample_lib sample_path file_cut = [r_user_hi]"
proof -
  have rl: "raw_lines file_revisions = [''asst-partial'', ''{trunc'', ''asst-bash'', ''asst-bash'']"
    unfolding file_revisions_def by (rule raw_lines_file_of) (simp add: LF_def)
  have h3: "\<forall>l\<in>set (raw_lines file_revisions). length l < maxLine"
    by (simp add: rl maxLine_def)
  have ls: "map dropCR (raw_lines file_revisions)
      = [''asst-partial''] @ ''{trunc'' # [''asst-bash'', ''asst-bash'']"
    by (simp add: rl dropCR_def CR_def)
  have bad: "json_Unmarshal sample_lib ''{trunc'' = None"
    and good: "json_Unmarshal sample_lib ''tool-result'' = Some r_tool_result"
    by (simp_all add: sample_lib_simps sample_Unmarshal_def)
  note first = malformed_lines_skipped [OF revisions_session fs_with_Open]
  from first h3 have "scanner_lines maxLine file_revisions = map dropCR (raw_lines file_revisions)"
    by blast
  with ls have "scanner_lines maxLine file_revisions
      = [''asst-partial''] @ ''{trunc'' # [''asst-bash'', ''asst-bash'']"
    by simp
  with first bad have "file_entries sample_lib sample_path file_revisions
      = decoded sample_lib [''asst-partial''] @ decoded sample_lib [''asst-bash'', ''asst-bash'']"
    by blast
  then have e1: "file_entries sample_lib sample_path file_revisions
      = [r_asst_partial, r_asst_bash, r_asst_bash]"
    by (simp add: decoded_def sample_lib_simps sample_Unmarshal_def)
  have before: "\<forall>x\<in>set [''user-hi'', ''{trunc'']. length x < maxLine"
    by (simp add: maxLine_def)
  have long: "maxLine \<le> length long_line"
    by (simp add: long_line_length)
  note second = malformed_lines_skipped [OF cut_session fs_with_Open]
  from second cut_raw_lines before long
  have "scanner_lines maxLine file_cut = map dropCR [''user-hi'', ''{trunc'']"
    by blast
  then have sl: "scanner_lines maxLine file_cut = [''user-hi''] @ ''{trunc'' # []"
    by (simp add: dropCR_def CR_def)
  with second bad have "file_entries sample_lib sample_path file_cut
      = decoded sample_lib [''user-hi''] @ decoded sample_lib []"
    by blast
  then have e2: "file_entries sample_lib sample_path file_cut = [r_user_hi]"
    by (simp add: decoded_def sample_lib_simps sample_Unmarshal_def)
  from ls bad e1 cut_raw_lines long good sl e2 show ?thesis
    by simp
qed

text \<open>A line of 10 MiB that does not decode, followed by a prompt: the scanner stops
  at the long line and the prompt after it is lost.\<close>

theorem line_after_long_line_lost:
  "raw_lines file_long_line = [long_line, ''user-hi'']
   \<and> json_Unmarshal sample_lib long_line = None
   \<and> json_Unmarshal sample_lib ''user-hi'' = Some r_user_hi
   \<and> ParseSessionFile sample_lib (fs_with sample_path file_long_line) sample_path
       (Inr (finish (parse_file sample_lib sample_path file_long_line) [] [] []))
   \<and> file_entries sample_lib sample_path file_long_line = []
   \<and> s_Events (finish (parse_file sample_lib sample_path file_long_line) [] [] []) = []"
proof -
  have "json_Unmarshal sample_lib ''user-hi'' = Some r_user_hi"
    by (simp add: sample_lib_simps sample_Unmarshal_def)
  moreover have "s_Events (finish (parse_file sample_lib sample_path file_long_line) [] [] []) = []"
    by (simp add: finish_simps parse_file_timeline long_line_entries read_all_rest)
  ultimately show ?thesis
    using long_line_session long_line_raw_lines long_line_malformed long_line_entries
    by simp
qed


subsection \<open>Revisions with equal timestamps\<close>

lemma tie_entries:
  "file_entries sample_lib sample_path file_tie = [r_tie_first, r_tie_second]"
  unfolding file_tie_def
  by (subst sample_file(1))
     (simp_all add: LF_def CR_def maxLine_def decoded_def sample_lib_simps sample_Unmarshal_def)

lemma tie_stored:
  "authoritative sample_lib sample_path file_tie =
     [''m7'' \<mapsto> \<lparr> g_entry = r_tie_first, g_timestamp = 200 \<rparr>]"
  unfolding file_tie_def
  by (subst sample_file(2))
     (simp_all add: LF_def CR_def maxLine_def decoded_def sample_eval)

lemma tie_files:
  "filesRead (parse_file sample_lib sample_path file_tie) = {}"
  "filesWritten (parse_file sample_lib sample_path file_tie) = {}"
  "filesCreated (parse_file sample_lib sample_path file_tie) = {}"
  by (simp_all add: parse_file_timeline tie_entries read_all_rest
      authoritative_def [symmetric] tie_stored step_eval)

lemma tie_session:
  "ParseSessionFile sample_lib (fs_with sample_path file_tie) sample_path
     (Inr (finish (parse_file sample_lib sample_path file_tie) [] [] []))"
  by (rule ParseSessionFile_finish) (simp_all add: tie_files range_order_def)

lemma tie_stamps:
  "parseTimestamp sample_lib (e_Timestamp r_tie_first) = 200"
  "parseTimestamp sample_lib (e_Timestamp r_tie_second) = 200"
  by (simp_all add: sample_records parseTimestamp_def sample_lib_simps sample_time_Parse_def)

lemma tie_ids:
  "message_id r_tie_first = Some ''m7''" "message_id r_tie_second = Some ''m7''"
  by (simp_all add: message_id_def sample_records)

lemma tie_spec_authoritative:
  "spec_authoritative sample_lib (file_entries sample_lib sample_path file_tie) ''m7''
     = Some r_tie_second"
  by (simp add: tie_entries spec_authoritative_def revisions_def tie_ids tie_stamps)

lemma tie_events:
  "sess_Events (parse_file sample_lib sample_path file_tie)
     = parseAssistantMessage sample_lib r_tie_first 200"
  by (simp add: parse_file_timeline tie_entries read_all_rest
      authoritative_def [symmetric] tie_stored step_eval parseTimestamp_def
      sample_time_Parse_def)

lemma tie_texts:
  "map ev_Text (parseAssistantMessage sample_lib r_tie_first 200) = [''one'']"
  "map ev_Text (parseAssistantMessage sample_lib r_tie_second 200) = [''one two'']"
  by (simp_all add: step_eval)

lemma tie_emit_ids: "file_emit_ids sample_lib sample_path file_tie = [''m7'']"
  by (simp add: file_emit_ids_def file_entries_def [symmetric] tie_entries step_ids_def
      emits_def authoritative_def [symmetric] tie_stored read_all_rest sample_records
      timeline_step_seen)

lemma tie_tokens:
  "i_InputTokens (sess_Info (parse_file sample_lib sample_path file_tie)) = 10"
  "i_OutputTokens (sess_Info (parse_file sample_lib sample_path file_tie)) = 1"
  "i_CacheReadTokens (sess_Info (parse_file sample_lib sample_path file_tie)) = 0"
  "i_CacheWriteTokens (sess_Info (parse_file sample_lib sample_path file_tie)) = 0"
proof -
  have ids: "ids_with_usage sample_lib sample_path file_tie = {''m7''}"
    by (auto simp add: ids_with_usage_def tie_stored final_usage_def sample_records
        split: if_splits)
  show "i_InputTokens (sess_Info (parse_file sample_lib sample_path file_tie)) = 10"
    "i_OutputTokens (sess_Info (parse_file sample_lib sample_path file_tie)) = 1"
    "i_CacheReadTokens (sess_Info (parse_file sample_lib sample_path file_tie)) = 0"
    "i_CacheWriteTokens (sess_Info (parse_file sample_lib sample_path file_tie)) = 0"
    by (simp_all add: parse_file_tokens ids tie_stored final_usage_def usage_in_def
        usage_out_def usage_cache_read_def usage_cache_write_def sample_records)
qed

text \<open>
  Claim C4 (exactly-once emission). The events derived from the authoritative record
  of a message identifier are to be appended to the timeline exactly once. On the file
  of two revisions of \<open>m7\<close> with the same timestamp the authoritative record is the
  later one, which says \<open>one two\<close>. The parser emits for \<open>m7\<close> once, but what it emits
  are the events of the earlier revision: the timeline of the session is the text
  \<open>one\<close>, and the events of the authoritative record are appended not once but
  never.
\<close>

theorem authoritative_revision_not_emitted:
  "file_entries sample_lib sample_path file_tie = [r_tie_first, r_tie_second]
   \<and> message_id r_tie_first = Some ''m7'' \<and> message_id r_tie_second = Some ''m7''
   \<and> parseTimestamp sample_lib (e_Timestamp r_tie_first) = 200
   \<and> parseTimestamp sample_lib (e_Timestamp r_tie_second) = 200
   \<and> spec_authoritative sample_lib (file_entries sample_lib sample_path file_tie) ''m7''
        = Some r_tie_second
   \<and> ParseSessionFile sample_lib (fs_with sample_path file_tie) sample_path
        (Inr (finish (parse_file sample_lib sample_path file_tie) [] [] []))
   \<and> file_emit_ids sample_lib sample_path file_tie = [''m7'']
   \<and> s_Events (finish (parse_file sample_lib sample_path file_tie) [] [] [])
        = parseAssistantMessage sample_lib r_tie_first 200
   \<and> map ev_Text (s_Events (finish (parse_file sample_lib sample_path file_tie) [] [] []))
        = [''one'']
   \<and> map ev_Text (parseAssistantMessage sample_lib r_tie_second 200) = [''one two'']
   \<and> set (parseAssistantMessage sample_lib r_tie_second 200)
        \<inter> set (s_Events (finish (parse_file sample_lib sample_path file_tie) [] [] [])) = {}"
proof -
  let ?sess = "finish (parse_file sample_lib sample_path file_tie) [] [] []"
  have ev: "s_Events ?sess = parseAssistantMessage sample_lib r_tie_first 200"
    by (simp add: finish_simps tie_events)
  have tx: "map ev_Text (s_Events ?sess) = [''one'']"
    by (simp add: ev tie_texts)
  have disj: "set (parseAssistantMessage sample_lib r_tie_second 200)
        \<inter> set (s_Events ?sess) = {}"
    by (simp add: finish_simps tie_events step_eval)
  from tie_entries tie_ids tie_stamps tie_spec_authoritative tie_session tie_emit_ids
    ev tx tie_texts(2) disj
  show ?thesis by (intro conjI)
qed

text \<open>
  Claim C5 (token non-double-counting). The four token counters of the session are to
  be the sums of the usage blocks of the authoritative records. On the file of two
  revisions of \<open>m7\<close> with the same timestamp the authoritative record is the later
  one, whose usage block reports 10 input and 2 output tokens; the session reports
  10 input tokens and 1 output token, the usage block of the earlier revision.
\<close>

theorem authoritative_usage_not_counted:
  "file_entries sample_lib sample_path file_tie = [r_tie_first, r_tie_second]
   \<and> spec_authoritative sample_lib (file_entries sample_lib sample_path file_tie) ''m7''
        = Some r_tie_second
   \<and> map_option m_Usage (e_Message r_tie_first)
        = Some (Some \<lparr> u_InputTokens = 10, u_OutputTokens = 1,
             u_CacheCreationInputTokens = 0, u_CacheReadInputTokens = 0 \<rparr>)
   \<and> map_option m_Usage (e_Message r_tie_second)
        = Some (Some \<lparr> u_InputTokens = 10, u_OutputTokens = 2,
             u_CacheCreationInputTokens = 0, u_CacheReadInputTokens = 0 \<rparr>)
   \<and> ParseSessionFile sample_lib (fs_with sample_path file_tie) sample_path
        (Inr (finish (parse_file sample_lib sample_path file_tie) [] [] []))
   \<and> i_InputTokens (s_Info (finish (parse_file sample_lib sample_path file_tie) [] [] [])) = 10
   \<and> i_OutputTokens (s_Info (finish (parse_file sample_lib sample_path file_tie) [] [] [])) = 1
   \<and> i_CacheReadTokens (s_Info (finish (parse_file sample_lib sample_path file_tie) [] [] [])) = 0
   \<and> i_CacheWriteTokens (s_Info (finish (parse_file sample_lib sample_path file_tie) [] [] [])) = 0"
proof -
  have "map_option m_Usage (e_Message r_tie_first)
        = Some (Some \<lparr> u_InputTokens = 10, u_OutputTokens = 1,
             u_CacheCreationInputTokens = 0, u_CacheReadInputTokens = 0 \<rparr>)"
    and "map_option m_Usage (e_Message r_tie_second)
        = Some (Some \<lparr> u_InputTokens = 10, u_OutputTokens = 2,
             u_CacheCreationInputTokens = 0, u_CacheReadInputTokens = 0 \<rparr>)"
    by (simp_all add: sample_records)
  with tie_entries tie_spec_authoritative tie_session tie_tokens show ?thesis
    by (simp add: finish_simps)
qed


subsection \<open>Strings and paths\<close>


lemma ReplaceAll_byte:
  "ReplaceAll s [d] [r] = map (\<lambda>c. if c = d then r else c) s"
proof (induction s)
  case Nil
  show ?case by (subst ReplaceAll.simps) simp
next
  case (Cons x xs)
  show ?case
    by (subst ReplaceAll.simps) (simp add: HasPrefix_def Cons.IH)
qed


lemma ReplaceAll_dashes: "ReplaceAll s ''-'' ''/'' = replace_dashes s"
  by (simp add: ReplaceAll_byte replace_dashes_def sep_def)



















lemma TrimSuffix_stem: "TrimSuffix (stem @ suf) suf = stem"
  by (simp add: TrimSuffix_def HasSuffix_def)




subsection \<open>The identity of a session\<close>

lemma identity_first_loop:
  "identity (first_model e info) = identity info"
  "identity (first_cwd e info) = identity info"
  by (simp_all add: identity_def first_model_def first_cwd_def split: option.splits)

lemma identity_read_line:
  "identity (sess_Info (read_line lib l st)) = identity (sess_Info st)"
  by (simp add: read_line_def identity_first_loop split: option.splits)

lemma identity_read_all:
  "identity (sess_Info (read_all lib path content)) = identity (sess_Info (init_state path))"
proof -
  have "identity (sess_Info (fold (read_line lib) ls st)) = identity (sess_Info st)" for ls st
    by (induction ls arbitrary: st) (simp_all add: identity_read_line)
  then show ?thesis
    by (simp add: read_all_def)
qed

lemma identity_bump_times: "identity (bump_times ts info) = identity info"
  by (simp add: identity_def bump_times_def Let_def)

lemma identity_count_user: "identity (fold count_user evs info) = identity info"
  by (induction evs arbitrary: info) (simp_all add: identity_def count_user_def Let_def)

lemma identity_add_usage: "identity (add_usage u info) = identity info"
  by (simp add: identity_def add_usage_def split: option.splits)

lemma identity_track_tool:
  "identity (sess_Info (fold track_tool evs st)) = identity (sess_Info st)"
  by (induction evs arbitrary: st)
     (simp_all add: identity_def track_tool_def Let_def split: option.splits)

lemma identity_emit:
  "identity (sess_Info (emit lib mid final ts st)) = identity (sess_Info st)"
  by (simp add: emit_def Let_def identity_add_usage identity_track_tool)

lemma identity_timeline_step:
  "identity (sess_Info (timeline_step lib e st)) = identity (sess_Info st)"
  by (simp add: timeline_step_def Let_def identity_bump_times identity_count_user
      identity_emit split: option.splits)

lemma identity_timeline:
  "identity (sess_Info (timeline lib es st)) = identity (sess_Info st)"
  by (induction es arbitrary: st) (simp_all add: identity_timeline_step)

lemma identity_parse_file:
  "identity (sess_Info (parse_file lib path content)) =
     (TrimSuffix (Base path) ''.jsonl'', HasPrefix (Base path) ''agent-'',
      ReplaceAll (Base (Dir path)) ''-'' ''/'',
      Base (ReplaceAll (Base (Dir path)) ''-'' ''/''))"
  by (simp add: parse_file_timeline identity_timeline identity_read_all)
     (simp add: identity_def init_state_def Let_def)

lemma identity_session:
  assumes "ParseSessionFile lib fs path (Inr sess)"
  shows "identity (s_Info sess) =
     (TrimSuffix (Base path) ''.jsonl'', HasPrefix (Base path) ''agent-'',
      replace_dashes (Base (Dir path)), Base (replace_dashes (Base (Dir path))))"
proof -
  from assms obtain content where c: "fs_Open fs path = Some content"
    using ParseSessionFile_opened by blast
  with assms have "sess = finish (parse_file lib path content) (i_FilesRead (s_Info sess))
           (i_FilesWritten (s_Info sess)) (i_FilesCreated (s_Info sess))"
    by (rule ParseSessionFile_Inr)
  then have "i_ID (s_Info sess) = i_ID (sess_Info (parse_file lib path content))"
    and "i_IsAgent (s_Info sess) = i_IsAgent (sess_Info (parse_file lib path content))"
    and "i_ProjectDir (s_Info sess) = i_ProjectDir (sess_Info (parse_file lib path content))"
    and "i_ProjectName (s_Info sess) = i_ProjectName (sess_Info (parse_file lib path content))"
    by (metis finish_simps(11), metis finish_simps(14), metis finish_simps(12),
        metis finish_simps(13))
  then have "identity (s_Info sess) = identity (sess_Info (parse_file lib path content))"
    by (simp add: identity_def)
  then show ?thesis
    by (simp add: identity_parse_file ReplaceAll_dashes)
qed



lemma sample_path_parts:
  "Base sample_path = ''s1.jsonl''"
  "Base (Dir sample_path) = ''-home-u-proj''"
  by (simp_all add: sample_path_def Base_def Dir_def Clean_def Let_def sep_def)






subsection \<open>The index of the store\<close>

inductive_cases scan_files_ConsE: "scan_files lib fs projectDir (f # files) s s'"

lemma events_determined:
  assumes "ParseSessionFile lib fs path (Inr a)" "ParseSessionFile lib fs path (Inr b)"
  shows "s_Events a = s_Events b"
proof -
  from assms(1) obtain content where c: "fs_Open fs path = Some content"
    using ParseSessionFile_opened by blast
  from assms(1) c have "s_Events a = concat (file_blocks lib path content)"
    by (rule session_events)
  moreover from assms(2) c have "s_Events b = concat (file_blocks lib path content)"
    by (rule session_events)
  ultimately show ?thesis by simp
qed

lemma index_ok_put:
  assumes "index_ok s" "length (s_Events sess) \<noteq> 0"
  shows "index_ok (s\<lparr> sessions := (sessions s)(i_ID (s_Info sess) \<mapsto> sess) \<rparr>)"
  using assms by (auto simp add: index_ok_def)

lemma index_ok_scan_files:
  assumes "scan_files lib fs projectDir files s s'" "index_ok s"
  shows "index_ok s'"
  using assms by (induction rule: scan_files.induct) (simp_all add: index_ok_put)

lemma index_ok_scan_dirs:
  assumes "scan_dirs lib fs entries s s'" "index_ok s"
  shows "index_ok s'"
  using assms by (induction rule: scan_dirs.induct) (simp_all add: index_ok_scan_files)

lemma index_ok_Scan:
  assumes "Scan lib fs s (err, s')" "index_ok s"
  shows "index_ok s'"
  using assms by (auto elim!: Scan.cases intro: index_ok_scan_dirs)

lemma index_ok_reparse:
  assumes "reparse lib fs path s s'" "index_ok s"
  shows "index_ok s'"
  using assms by (auto elim!: reparse.cases intro: index_ok_put)

lemma index_ok_reachable:
  assumes "reachable lib s"
  shows "index_ok s"
  using assms
proof (induction rule: reachable.induct)
  case (reach_new homeDir)
  show ?case by (simp add: index_ok_def NewStore_def)
next
  case (reach_scan s fs err s')
  then show ?case by (auto intro: index_ok_Scan)
next
  case (reach_watch s name op fs s')
  then show ?case by (auto intro: index_ok_reparse)
qed

lemma reparse_empty_unchanged:
  assumes "ParseSessionFile lib fs path (Inr sess)" "s_Events sess = []"
    "reparse lib fs path s s'"
  shows "s' = s"
  using assms(3)
proof (cases rule: reparse.cases)
  case (reparse_put sess2)
  with assms(1) have "s_Events sess2 = s_Events sess"
    using events_determined by blast
  with assms(2) reparse_put show ?thesis by simp
qed simp_all

lemma scan_files_empty_passed:
  assumes "ParseSessionFile lib fs (Join projectDir (d_Name f)) (Inr sess)" "s_Events sess = []"
    "scan_files lib fs projectDir (f # files) s s'"
  shows "scan_files lib fs projectDir files s s'"
proof -
  have "s_Events sess2 = []" if "ParseSessionFile lib fs (Join projectDir (d_Name f)) (Inr sess2)"
    for sess2
    using events_determined [OF that assms(1)] assms(2) by simp
  with assms(3) show ?thesis
    by (auto elim!: scan_files_ConsE)
qed

lemma GetSessions_member:
  assumes "GetSessions s infos" "info \<in> set infos"
  shows "\<exists>k sess. sessions s k = Some sess \<and> s_Info sess = info"
proof -
  from assms have "info \<in># image_mset (\<lambda>k. s_Info (the (sessions s k))) (mset_set (dom (sessions s)))"
    by (metis GetSessions_def set_mset_mset)
  then obtain k where k: "k \<in># mset_set (dom (sessions s))" "info = s_Info (the (sessions s k))"
    by auto
  from k(1) have "k \<in> dom (sessions s)"
    by (metis elem_mset_set empty_iff mset_set.infinite set_mset_empty)
  then obtain y where y: "sessions s k = Some y"
    by auto
  with k(2) have "s_Info y = info"
    by simp
  with y show ?thesis
    by blast
qed

text \<open>
  Claim C6 (empty-session exclusion). In every store the program can reach, by scans
  and by the re-parses of the watcher in any order and against any state of the files,
  a stored session has events and is stored under its own ID. So \<open>GetSession\<close> never
  returns a session without events and every info that \<open>GetSessions\<close> lists belongs to
  a stored session with events. A parse that yields zero events inserts nothing: the
  watcher's re-parse of such a file leaves the store as it is, the loop of \<open>Scan\<close> passes
  the file by, and the session it yields is found under no key.
\<close>

theorem empty_sessions_excluded:
  assumes "reachable lib s"
  shows "(\<forall>k sess. GetSession s k = Some sess \<longrightarrow> s_Events sess \<noteq> [] \<and> i_ID (s_Info sess) = k)
    \<and> (\<forall>infos info. GetSessions s infos \<and> info \<in> set infos \<longrightarrow>
          (\<exists>sess. GetSession s (i_ID info) = Some sess \<and> s_Info sess = info
             \<and> s_Events sess \<noteq> []))
    \<and> (\<forall>fs path sess. ParseSessionFile lib fs path (Inr sess) \<and> s_Events sess = [] \<longrightarrow>
          (\<forall>k. GetSession s k \<noteq> Some sess)
          \<and> (\<forall>s'. reparse lib fs path s s' \<longrightarrow> s' = s))
    \<and> (\<forall>fs projectDir f files sess s'.
          ParseSessionFile lib fs (Join projectDir (d_Name f)) (Inr sess) \<and> s_Events sess = []
          \<and> scan_files lib fs projectDir (f # files) s s' \<longrightarrow>
          scan_files lib fs projectDir files s s')
    \<and> (\<forall>fs err s' k sess. Scan lib fs s (err, s') \<and> GetSession s' k = Some sess \<longrightarrow>
          s_Events sess \<noteq> [])
    \<and> (\<forall>fs name op s' k sess. watch_accepts name op \<and> reparse lib fs name s s'
          \<and> GetSession s' k = Some sess \<longrightarrow> s_Events sess \<noteq> [])"
proof -
  from assms have ok: "index_ok s"
    by (rule index_ok_reachable)
  then have get: "s_Events sess \<noteq> [] \<and> i_ID (s_Info sess) = k"
    if "GetSession s k = Some sess" for k sess
    using that by (simp add: index_ok_def GetSession_def)
  have list: "\<exists>sess. GetSession s (i_ID info) = Some sess \<and> s_Info sess = info
      \<and> s_Events sess \<noteq> []"
    if "GetSessions s infos" "info \<in> set infos" for infos info
  proof -
    from that obtain k sess where "sessions s k = Some sess" "s_Info sess = info"
      using GetSessions_member by blast
    with ok show ?thesis
      by (auto simp add: index_ok_def GetSession_def)
  qed
  have absent: "GetSession s k \<noteq> Some sess" if "s_Events sess = []" for k sess
    using get that by blast
  have watch: "s' = s"
    if "ParseSessionFile lib fs path (Inr sess)" "s_Events sess = []" "reparse lib fs path s s'"
    for fs path sess s'
    using that by (rule reparse_empty_unchanged)
  have scan: "scan_files lib fs projectDir files s s'"
    if "ParseSessionFile lib fs (Join projectDir (d_Name f)) (Inr sess)" "s_Events sess = []"
      "scan_files lib fs projectDir (f # files) s s'"
    for fs projectDir f files sess s'
    using that by (rule scan_files_empty_passed)
  have after_scan: "s_Events sess \<noteq> []"
    if "Scan lib fs s (err, s')" "GetSession s' k = Some sess" for fs err s' k sess
  proof -
    from that(1) ok have "index_ok s'" by (rule index_ok_Scan)
    with that(2) show ?thesis by (simp add: index_ok_def GetSession_def)
  qed
  have after_watch: "s_Events sess \<noteq> []"
    if "reparse lib fs name s s'" "GetSession s' k = Some sess" for fs name s' k sess
  proof -
    from that(1) ok have "index_ok s'" by (rule index_ok_reparse)
    with that(2) show ?thesis by (simp add: index_ok_def GetSession_def)
  qed
  have c1: "\<forall>k sess. GetSession s k = Some sess \<longrightarrow> s_Events sess \<noteq> [] \<and> i_ID (s_Info sess) = k"
    using get by blast
  have c2: "\<forall>infos info. GetSessions s infos \<and> info \<in> set infos \<longrightarrow>
          (\<exists>sess. GetSession s (i_ID info) = Some sess \<and> s_Info sess = info
             \<and> s_Events sess \<noteq> [])"
    using list by blast
  have c3: "\<forall>fs path sess. ParseSessionFile lib fs path (Inr sess) \<and> s_Events sess = [] \<longrightarrow>
          (\<forall>k. GetSession s k \<noteq> Some sess)
          \<and> (\<forall>s'. reparse lib fs path s s' \<longrightarrow> s' = s)"
    using absent watch by blast
  have c4: "\<forall>fs projectDir f files sess s'.
          ParseSessionFile lib fs (Join projectDir (d_Name f)) (Inr sess) \<and> s_Events sess = []
          \<and> scan_files lib fs projectDir (f # files) s s' \<longrightarrow>
          scan_files lib fs projectDir files s s'"
    using scan by blast
  have c5: "\<forall>fs err s' k sess. Scan lib fs s (err, s') \<and> GetSession s' k = Some sess \<longrightarrow>
          s_Events sess \<noteq> []"
    using after_scan by blast
  have c6: "\<forall>fs name op s' k sess. watch_accepts name op \<and> reparse lib fs name s s'
          \<and> GetSession s' k = Some sess \<longrightarrow> s_Events sess \<noteq> []"
    using after_watch by blast
  from c1 c2 c3 c4 c5 c6 show ?thesis
    by (intro conjI)
qed

lemma sample_dirs:
  "baseDir (NewStore ''/home/u'') = ''/home/u/.claude/projects''"
  "Join ''/home/u/.claude/projects'' ''-home-u-proj'' = ''/home/u/.claude/projects/-home-u-proj''"
  "Join ''/home/u/.claude/projects/-home-u-proj'' ''s1.jsonl'' = sample_path"
  "Join ''/home/u/.claude/projects/-home-u-proj'' ''s2.jsonl'' = path_empty"
  by (simp_all add: NewStore_def Join_def Clean_def Let_def sep_def sample_path_def path_empty_def)

lemma fs_sample_simps:
  "fs_Open fs_sample sample_path = Some file_example"
  "fs_Open fs_sample path_empty = Some file_noid"
  "fs_ReadDir fs_sample ''/home/u/.claude/projects''
     = Some [\<lparr> d_Name = ''-home-u-proj'', d_IsDir = True \<rparr>]"
  "fs_ReadDir fs_sample ''/home/u/.claude/projects/-home-u-proj''
     = Some [\<lparr> d_Name = ''s1.jsonl'', d_IsDir = False \<rparr>,
             \<lparr> d_Name = ''s2.jsonl'', d_IsDir = False \<rparr>]"
  by (simp_all add: fs_sample_def sample_path_def path_empty_def)

lemma noid_anywhere:
  "file_entries sample_lib p file_noid = [r_asst_noid]"
  "filesRead (parse_file sample_lib p file_noid) = {}"
  "filesWritten (parse_file sample_lib p file_noid) = {}"
  "filesCreated (parse_file sample_lib p file_noid) = {}"
  "sess_Events (parse_file sample_lib p file_noid) = []"
proof -
  show e: "file_entries sample_lib p file_noid = [r_asst_noid]"
    unfolding file_noid_def
    by (subst sample_file(1))
       (simp_all add: LF_def CR_def maxLine_def decoded_def sample_lib_simps sample_Unmarshal_def)
  have a: "authoritative sample_lib p file_noid = Map.empty"
    unfolding file_noid_def
    by (subst sample_file(2))
       (simp_all add: LF_def CR_def maxLine_def decoded_def sample_eval)
  show "filesRead (parse_file sample_lib p file_noid) = {}"
    "filesWritten (parse_file sample_lib p file_noid) = {}"
    "filesCreated (parse_file sample_lib p file_noid) = {}"
    "sess_Events (parse_file sample_lib p file_noid) = []"
    by (simp_all add: parse_file_timeline e read_all_rest authoritative_def [symmetric] a
        step_eval)
qed

lemma example_stamps:
  "map ev_Timestamp (sess_Events (parse_file sample_lib sample_path file_example))
     = [100, 200, 300]"
  by (simp add: parse_file_timeline example_entries read_all_rest
      authoritative_def [symmetric] example_stored step_eval parseTimestamp_def
      sample_time_Parse_def)

lemma example_parsed:
  "ParseSessionFile sample_lib fs_sample sample_path
     (Inr (finish (parse_file sample_lib sample_path file_example) [] [] []))"
  by (rule ParseSessionFile_finish)
     (simp_all add: fs_sample_simps example_files range_order_def)

lemma empty_parsed:
  "ParseSessionFile sample_lib fs_sample path_empty
     (Inr (finish (parse_file sample_lib path_empty file_noid) [] [] []))"
  by (rule ParseSessionFile_finish)
     (simp_all add: fs_sample_simps noid_anywhere range_order_def)

lemma example_has_events:
  "length (s_Events (finish (parse_file sample_lib sample_path file_example) [] [] [])) \<noteq> 0"
proof -
  have "length (map ev_Timestamp (sess_Events (parse_file sample_lib sample_path file_example))) = 3"
    by (simp only: example_stamps) simp
  then show ?thesis
    by (simp add: finish_simps)
qed

lemma example_id:
  "i_ID (s_Info (finish (parse_file sample_lib sample_path file_example) [] [] [])) = ''s1''"
proof -
  have "TrimSuffix (''s1'' @ ''.jsonl'') ''.jsonl'' = ''s1''"
    by (rule TrimSuffix_stem)
  with identity_session [OF example_parsed] show ?thesis
    by (simp add: identity_def sample_path_parts)
qed

lemma empty_id:
  "i_ID (s_Info (finish (parse_file sample_lib path_empty file_noid) [] [] [])) = ''s2''"
proof -
  have "TrimSuffix (''s2'' @ ''.jsonl'') ''.jsonl'' = ''s2''"
    by (rule TrimSuffix_stem)
  moreover have "Base path_empty = ''s2.jsonl''"
    by (simp add: path_empty_def Base_def Let_def sep_def)
  ultimately show ?thesis
    using identity_session [OF empty_parsed] by (simp add: identity_def)
qed

lemma sample_scan:
  "Scan sample_lib fs_sample (NewStore ''/home/u'') (None, store_scanned)"
proof -
  let ?s0 = "NewStore ''/home/u''"
  let ?dir = "''/home/u/.claude/projects/-home-u-proj''"
  let ?f1 = "\<lparr> d_Name = ''s1.jsonl'', d_IsDir = False \<rparr>"
  let ?f2 = "\<lparr> d_Name = ''s2.jsonl'', d_IsDir = False \<rparr>"
  let ?sessE = "finish (parse_file sample_lib sample_path file_example) [] [] []"
  let ?sessN = "finish (parse_file sample_lib path_empty file_noid) [] [] []"
  have s1: "?s0\<lparr> sessions := (sessions ?s0)(i_ID (s_Info ?sessE) \<mapsto> ?sessE) \<rparr> = store_scanned"
    by (simp add: store_scanned_def example_id NewStore_def)
  have suf: "HasSuffix ''s1.jsonl'' ''.jsonl''" "HasSuffix ''s2.jsonl'' ''.jsonl''"
    by (simp_all add: HasSuffix_def)
  have rest: "scan_files sample_lib fs_sample ?dir [?f2]
      (?s0\<lparr> sessions := (sessions ?s0)(i_ID (s_Info ?sessE) \<mapsto> ?sessE) \<rparr>) store_scanned"
    unfolding s1
  proof (rule files_empty)
    show "\<not> (d_IsDir ?f2 \<or> \<not> HasSuffix (d_Name ?f2) ''.jsonl'')"
      by (simp add: suf)
    show "ParseSessionFile sample_lib fs_sample (Join ?dir (d_Name ?f2)) (Inr ?sessN)"
      by (simp add: sample_dirs empty_parsed)
    show "length (s_Events ?sessN) = 0"
      by (simp add: finish_simps noid_anywhere)
    show "scan_files sample_lib fs_sample ?dir [] store_scanned store_scanned"
      by (rule files_done)
  qed
  have files: "scan_files sample_lib fs_sample ?dir [?f1, ?f2] ?s0 store_scanned"
  proof (rule files_put)
    show "\<not> (d_IsDir ?f1 \<or> \<not> HasSuffix (d_Name ?f1) ''.jsonl'')"
      by (simp add: suf)
    show "ParseSessionFile sample_lib fs_sample (Join ?dir (d_Name ?f1)) (Inr ?sessE)"
      by (simp add: sample_dirs example_parsed)
    show "length (s_Events ?sessE) \<noteq> 0"
      by (rule example_has_events)
    show "scan_files sample_lib fs_sample ?dir [?f2]
      (?s0\<lparr> sessions := (sessions ?s0)(i_ID (s_Info ?sessE) \<mapsto> ?sessE) \<rparr>) store_scanned"
      by (rule rest)
  qed
  have "scan_dirs sample_lib fs_sample [] store_scanned store_scanned"
    by (rule dirs_done)
  with files have "scan_dirs sample_lib fs_sample
      [\<lparr> d_Name = ''-home-u-proj'', d_IsDir = True \<rparr>] ?s0 store_scanned"
    by (intro dirs_project [where files = "[?f1, ?f2]" and ?s1.0 = store_scanned])
       (simp_all add: sample_dirs fs_sample_simps)
  then show ?thesis
    by (intro scan_ok [where entries = "[\<lparr> d_Name = ''-home-u-proj'', d_IsDir = True \<rparr>]"])
       (simp_all add: sample_dirs fs_sample_simps)
qed

lemma sample_reachable: "reachable sample_lib store_scanned"
  using reach_new sample_scan by (rule reach_scan)

lemma sample_listing:
  "GetSessions store_scanned
     [s_Info (finish (parse_file sample_lib sample_path file_example) [] [] [])]"
  by (simp add: GetSessions_def store_scanned_def)

text \<open>A projects directory with two session files, \<open>s1.jsonl\<close> with a prompt, a tool
  call and its result, and \<open>s2.jsonl\<close> whose parse yields no event: the scan stores
  the first and nothing for the second, and a re-parse of the second changes nothing.\<close>

theorem empty_sessions_excluded_witness:
  "Scan sample_lib fs_sample (NewStore ''/home/u'') (None, store_scanned)
   \<and> reachable sample_lib store_scanned
   \<and> ParseSessionFile sample_lib fs_sample path_empty
        (Inr (finish (parse_file sample_lib path_empty file_noid) [] [] []))
   \<and> s_Events (finish (parse_file sample_lib path_empty file_noid) [] [] []) = []
   \<and> i_ID (s_Info (finish (parse_file sample_lib path_empty file_noid) [] [] [])) = ''s2''
   \<and> watch_accepts path_empty fsnotify_Write
   \<and> reparse sample_lib fs_sample path_empty store_scanned store_scanned
   \<and> GetSession store_scanned ''s2''
        \<noteq> Some (finish (parse_file sample_lib path_empty file_noid) [] [] [])
   \<and> GetSession store_scanned ''s2'' = None
   \<and> GetSession store_scanned ''s1''
        = Some (finish (parse_file sample_lib sample_path file_example) [] [] [])
   \<and> s_Events (finish (parse_file sample_lib sample_path file_example) [] [] []) \<noteq> []
   \<and> GetSessions store_scanned
        [s_Info (finish (parse_file sample_lib sample_path file_example) [] [] [])]"
proof -
  let ?sessE = "finish (parse_file sample_lib sample_path file_example) [] [] []"
  let ?sessN = "finish (parse_file sample_lib path_empty file_noid) [] [] []"
  note inst = empty_sessions_excluded [OF sample_reachable]
  have none: "s_Events ?sessN = []"
    by (simp add: finish_simps noid_anywhere)
  have acc: "watch_accepts path_empty fsnotify_Write"
    by (simp add: watch_accepts_def HasSuffix_def path_empty_def fsnotify_Write_def
        fsnotify_Create_def)
  from empty_parsed have re: "reparse sample_lib fs_sample path_empty store_scanned store_scanned"
    by (rule reparse_empty) (simp add: none)
  note held = inst [THEN conjunct1, rule_format]
  note kept_out = inst [THEN conjunct2, THEN conjunct2, THEN conjunct1, rule_format]
  from empty_parsed none have "ParseSessionFile sample_lib fs_sample path_empty (Inr ?sessN)
      \<and> s_Events ?sessN = []"
    by simp
  then have absent: "GetSession store_scanned ''s2'' \<noteq> Some ?sessN"
    by (rule kept_out [THEN conjunct1, rule_format])
  have g1: "GetSession store_scanned ''s1'' = Some ?sessE"
    and g2: "GetSession store_scanned ''s2'' = None"
    by (simp_all add: GetSession_def store_scanned_def)
  from g1 have "s_Events ?sessE \<noteq> [] \<and> i_ID (s_Info ?sessE) = ''s1''"
    by (rule held)
  then have ev: "s_Events ?sessE \<noteq> []"
    by simp
  from sample_scan sample_reachable empty_parsed none empty_id acc re absent g2 g1 ev
    sample_listing
  show ?thesis by (intro conjI)
qed

end
